theory Spec2Isabelle
  imports Complex_Main
begin

section \<open>The retrieval and index engine of \<^verbatim>\<open>memory_service.py\<close>\<close>

text \<open>
  The theory embeds the service of \<^verbatim>\<open>src/memory_service.py\<close>: the table
  \<^verbatim>\<open>rag_chunks\<close>, the index builder \<^verbatim>\<open>_load_index_from_db\<close>, and the endpoints
  \<^verbatim>\<open>reload_index\<close>, \<^verbatim>\<open>store\<close> and \<^verbatim>\<open>retrieve\<close> together with \<^verbatim>\<open>_startup\<close>.

  Conventions of the embedding.
  \<^item> A Python exception is a value of \<open>py_exc\<close>; an \<^verbatim>\<open>HTTPException\<close> is a value of
    \<open>http_error\<close>. A function that can raise returns a sum, \<open>Inl\<close> holding the error.
  \<^item> The module-level \<^verbatim>\<open>state\<close> object and the database file are passed in and
    returned explicitly.
  \<^item> \<^verbatim>\<open>float32\<close> values are modelled as reals: arithmetic is exact, rounding,
    overflow and NaN are outside the model. Statements about norms and about the
    value of a score (claims C6 and C7) are statements of this exact arithmetic; the
    other theorems depend on the order of the scores and on which row a value comes
    from.
  \<^item> An embedding blob is the list of the \<^verbatim>\<open>float32\<close> values it holds (a whole number
    of 4-byte values).
  \<^item> Strings are \<open>string\<close>; \<^verbatim>\<open>strip\<close> and \<^verbatim>\<open>lower\<close> are modelled on ASCII.
  \<^item> The sentence-transformer model is a function from a text to its vector, or to
    \<open>None\<close> when \<^verbatim>\<open>encode\<close> raises.
  \<^item> numpy's \<^verbatim>\<open>argpartition\<close> and \<^verbatim>\<open>argsort\<close> are parameters (record \<open>numpy\<close>)
    constrained by their documented contract (\<open>numpy_contract\<close>): the order they give
    to equal keys is not part of that contract.
  \<^item> SQLite failures that do not depend on the table's content (a locked database,
    an I/O error) are not modelled.
\<close>

subsection \<open>Errors\<close>

datatype py_exc =
    FileNotFoundError
  | OperationalError
  | IntegrityError
  | RuntimeError_empty
  | RuntimeError_dim int int
  | ValueError
  | IndexError
  | EncodeError

datatype detail =
    Service_not_ready
  | Model_not_loaded
  | Invalid_priority string
  | Embedding_failed
  | Integrity_error
  | DB_error
  | Row_not_found
  | Stored_but_reload_failed py_exc
  | Reload_failed py_exc

datatype http_error =
    HTTPException nat detail
  | Unhandled py_exc

subsection \<open>API models\<close>

type_synonym vec = "real list"

record Query =
  q_query :: string
  q_topk :: int
  q_kind :: "string option"

record RetrievedChunk =
  rc_score :: real
  rc_source_path :: string
  rc_kind :: string
  rc_chunk_index :: int
  rc_priority :: string
  rc_text :: string

record StoreRequest =
  sq_source_path :: string
  sq_kind :: string
  sq_chunk_index :: int
  sq_text :: string
  sq_priority :: string

record StoreResponse =
  sp_ok :: bool
  sp_id :: string
  sp_dim :: int

definition PRIORITIES :: "string set" where
  "PRIORITIES = {''normal'', ''high''}"

subsection \<open>In-memory index and application state\<close>

record RagIndex =
  ix_source_path :: "string list"
  ix_kind :: "string list"
  ix_chunk_index :: "int list"
  ix_priority :: "string list"
  ix_text :: "string list"
  emb_matrix :: "vec list"

type_synonym encoder = "string \<Rightarrow> vec option"

record AppState =
  st_model :: "encoder option"
  st_index :: "RagIndex option"
  loaded_at :: "real option"

definition ready :: "AppState \<Rightarrow> bool" where
  "ready s = (st_model s \<noteq> None \<and> st_index s \<noteq> None)"

definition state_init :: AppState where
  "state_init = \<lparr>st_model = None, st_index = None, loaded_at = None\<rparr>"

subsection \<open>The table \<^verbatim>\<open>rag_chunks\<close>\<close>

text \<open>
  A row has the columns of \<^verbatim>\<open>init_rag_db.py\<close> and the migrated column
  \<^verbatim>\<open>priority\<close>, which may hold NULL (\<open>None\<close>) in a table whose column was not created by
  the migration. The rows are listed in the order \<^verbatim>\<open>SELECT\<close> returns them. The two flags
  record whether the unique index on the natural key and the column \<^verbatim>\<open>priority\<close>
  exist.
\<close>

record row =
  r_id :: string
  r_source_path :: string
  r_kind :: string
  r_chunk_index :: int
  r_priority :: "string option"
  r_text :: string
  r_emb :: vec
  r_dim :: int
  r_created_at :: string

record table =
  rows :: "row list"
  has_ux :: bool
  has_priority :: bool

datatype db_file = Missing | NoTable | Table table

definition nkey :: "row \<Rightarrow> string \<times> string \<times> int" where
  "nkey r = (r_source_path r, r_kind r, r_chunk_index r)"

definition ensure_schema :: "table \<Rightarrow> py_exc + table" where
  "ensure_schema t =
     (if \<not> has_ux t \<and> \<not> distinct (map nkey (rows t)) then Inl IntegrityError
      else
        let t1 = t\<lparr>has_ux := True\<rparr> in
        if has_priority t1 then Inr t1
        else Inr (t1\<lparr>rows := map (\<lambda>r. r\<lparr>r_priority := Some ''normal''\<rparr>) (rows t1),
                      has_priority := True\<rparr>))"

subsection \<open>numpy\<close>

definition frombuffer :: "vec \<Rightarrow> int \<Rightarrow> py_exc + vec" where
  "frombuffer blob count =
     (if count < 0 then Inr blob
      else if nat count \<le> length blob then Inr (take (nat count) blob)
      else Inl ValueError)"

definition linalg_norm :: "vec \<Rightarrow> real" where
  "linalg_norm v = sqrt (sum_list (map (\<lambda>x. x * x) v))"

definition vstack :: "vec list \<Rightarrow> py_exc + vec list" where
  "vstack vs =
     (case vs of
        [] \<Rightarrow> Inl ValueError
      | v # _ \<Rightarrow> if list_all (\<lambda>w. length w = length v) vs then Inr vs else Inl ValueError)"

definition dot :: "vec \<Rightarrow> vec \<Rightarrow> real" where
  "dot v w = sum_list (map (\<lambda>(x, y). x * y) (zip v w))"

definition matvec :: "vec list \<Rightarrow> vec \<Rightarrow> py_exc + real list" where
  "matvec m qv =
     (if list_all (\<lambda>r. length r = length qv) m then Inr (map (\<lambda>r. dot r qv) m)
      else Inl ValueError)"

definition fancy :: "'a list \<Rightarrow> nat list \<Rightarrow> py_exc + 'a list" where
  "fancy xs js =
     (if list_all (\<lambda>j. j < length xs) js then Inr (map (\<lambda>j. xs ! j) js)
      else Inl IndexError)"

definition bool_index :: "'a list \<Rightarrow> bool list \<Rightarrow> py_exc + 'a list" where
  "bool_index xs msk =
     (if length msk = length xs then Inr (map fst (filter snd (zip xs msk)))
      else Inl IndexError)"

definition flatnonzero :: "bool list \<Rightarrow> nat list" where
  "flatnonzero msk = filter (\<lambda>i. msk ! i) [0..<length msk]"

definition slice_to :: "'a list \<Rightarrow> int \<Rightarrow> 'a list" where
  "slice_to xs k =
     (if 0 \<le> k then take (nat k) xs else take (nat (int (length xs) + k)) xs)"

record numpy =
  argpartition :: "real list \<Rightarrow> nat \<Rightarrow> nat list"
  argsort :: "real list \<Rightarrow> nat list"

definition np_argpartition :: "numpy \<Rightarrow> real list \<Rightarrow> int \<Rightarrow> py_exc + nat list" where
  "np_argpartition np a kth =
     (let n = int (length a);
          k = (if kth < 0 then kth + n else kth)
      in if 0 \<le> k \<and> k < n then Inr (argpartition np a (nat k)) else Inl ValueError)"

definition is_permutation :: "nat \<Rightarrow> nat list \<Rightarrow> bool" where
  "is_permutation n p = (length p = n \<and> set p = {0..<n})"

definition is_argsort :: "real list \<Rightarrow> nat list \<Rightarrow> bool" where
  "is_argsort a p = (is_permutation (length a) p \<and> sorted (map (\<lambda>j. a ! j) p))"

definition is_argpartition :: "real list \<Rightarrow> nat \<Rightarrow> nat list \<Rightarrow> bool" where
  "is_argpartition a k p =
     (is_permutation (length a) p \<and>
      (\<forall>i. i < k \<longrightarrow> a ! (p ! i) \<le> a ! (p ! k)) \<and>
      (\<forall>i. k < i \<and> i < length a \<longrightarrow> a ! (p ! k) \<le> a ! (p ! i)))"

definition numpy_contract :: "numpy \<Rightarrow> bool" where
  "numpy_contract np =
     ((\<forall>a k. k < length a \<longrightarrow> is_argpartition a k (argpartition np a k)) \<and>
      (\<forall>a. is_argsort a (argsort np a)))"

definition bindE :: "'e + 'a \<Rightarrow> ('a \<Rightarrow> 'e + 'b) \<Rightarrow> 'e + 'b" where
  "bindE m f = (case m of Inl e \<Rightarrow> Inl e | Inr x \<Rightarrow> f x)"

fun collect :: "('e + 'a) list \<Rightarrow> 'e + 'a list" where
  "collect [] = Inr []"
| "collect (m # ms) =
     (case m of
        Inl e \<Rightarrow> Inl e
      | Inr x \<Rightarrow> (case collect ms of Inl e \<Rightarrow> Inl e | Inr xs \<Rightarrow> Inr (x # xs)))"

subsection \<open>Index construction: \<^verbatim>\<open>_load_index_from_db\<close>\<close>

text \<open>Lines 151-154: the vector of a row, divided by its norm when the norm is positive.\<close>

definition renormalize :: "vec \<Rightarrow> vec" where
  "renormalize v = (let norm = linalg_norm v in if norm > 0 then map (\<lambda>x. x / norm) v else v)"

text \<open>Lines 159-160: the priority a row is loaded with.\<close>

definition load_priority :: "string option \<Rightarrow> string" where
  "load_priority pr =
     (let pr_s = (case pr of None \<Rightarrow> ''normal'' | Some p \<Rightarrow> p)
      in if pr_s \<in> PRIORITIES then pr_s else ''normal'')"

definition no_columns :: RagIndex where
  "no_columns = \<lparr>ix_source_path = [], ix_kind = [], ix_chunk_index = [], ix_priority = [],
                  ix_text = [], emb_matrix = []\<rparr>"

text \<open>
  The loop of lines 146-162. The accumulator holds the five column lists and, in
  \<open>emb_matrix\<close>, the list \<^verbatim>\<open>embs\<close> before it is stacked.
\<close>

fun load_loop :: "int \<Rightarrow> row list \<Rightarrow> RagIndex \<Rightarrow> py_exc + RagIndex" where
  "load_loop dim0 [] acc = Inr acc"
| "load_loop dim0 (r # rs) acc =
     (if r_dim r \<noteq> dim0 then Inl (RuntimeError_dim (r_dim r) dim0)
      else case frombuffer (r_emb r) (r_dim r) of
             Inl e \<Rightarrow> Inl e
           | Inr v \<Rightarrow>
               load_loop dim0 rs
                 (acc\<lparr>ix_source_path := ix_source_path acc @ [r_source_path r],
                      ix_kind := ix_kind acc @ [r_kind r],
                      ix_chunk_index := ix_chunk_index acc @ [r_chunk_index r],
                      ix_priority := ix_priority acc @ [load_priority (r_priority r)],
                      ix_text := ix_text acc @ [r_text r],
                      emb_matrix := emb_matrix acc @ [renormalize v]\<rparr>))"

definition build_index :: "row list \<Rightarrow> py_exc + RagIndex" where
  "build_index rs =
     (case rs of
        [] \<Rightarrow> Inl RuntimeError_empty
      | r0 # _ \<Rightarrow>
          bindE (load_loop (r_dim r0) rs no_columns) (\<lambda>acc.
          bindE (vstack (emb_matrix acc)) (\<lambda>m.
          Inr (acc\<lparr>emb_matrix := m\<rparr>))))"

text \<open>
  The rows \<^verbatim>\<open>_load_index_from_db\<close> reads (lines 118-133), with the database as the
  call leaves it: \<^verbatim>\<open>_ensure_schema\<close> is committed before the \<^verbatim>\<open>SELECT\<close>.
\<close>

definition select_rows :: "db_file \<Rightarrow> (py_exc + row list) \<times> db_file" where
  "select_rows db =
     (case db of
        Missing \<Rightarrow> (Inl FileNotFoundError, Missing)
      | NoTable \<Rightarrow> (Inl OperationalError, NoTable)
      | Table t \<Rightarrow>
          (case ensure_schema t of
             Inl e \<Rightarrow> (Inl e, Table t)
           | Inr t1 \<Rightarrow> (Inr (rows t1), Table t1)))"

definition load_index_from_db :: "db_file \<Rightarrow> (py_exc + RagIndex) \<times> db_file" where
  "load_index_from_db db =
     (case select_rows db of (res, db1) \<Rightarrow> (bindE res build_index, db1))"

subsection \<open>Lifecycle and endpoints\<close>

text \<open>
  What a call reads from outside the program: the identifier \<^verbatim>\<open>uuid4\<close> draws, the
  two clocks, and the model \<^verbatim>\<open>SentenceTransformer(MODEL_NAME)\<close> loads (\<open>None\<close> when loading
  raises).
\<close>

record env =
  new_id :: string
  created_at :: string
  now :: real
  loaded_model :: "encoder option"

definition startup :: "env \<Rightarrow> AppState \<Rightarrow> db_file \<Rightarrow> (py_exc + unit) \<times> AppState \<times> db_file" where
  "startup env s db =
     (case (case db of
              Missing \<Rightarrow> Inr Missing
            | NoTable \<Rightarrow> Inl OperationalError
            | Table t \<Rightarrow> bindE (ensure_schema t) (\<lambda>t1. Inr (Table t1))) of
        Inl e \<Rightarrow> (Inl e, s, db)
      | Inr db1 \<Rightarrow>
          (case loaded_model env of
             None \<Rightarrow> (Inl EncodeError, s, db1)
           | Some enc \<Rightarrow>
               let s1 = s\<lparr>st_model := Some enc\<rparr> in
               (case enc ''warmup'' of
                  None \<Rightarrow> (Inl EncodeError, s1, db1)
                | Some _ \<Rightarrow>
                    (case load_index_from_db db1 of
                       (Inl e, db2) \<Rightarrow> (Inl e, s1, db2)
                     | (Inr ix, db2) \<Rightarrow>
                         (Inr (), s1\<lparr>st_index := Some ix, loaded_at := Some (now env)\<rparr>, db2)))))"

definition reload_index ::
  "env \<Rightarrow> AppState \<Rightarrow> db_file \<Rightarrow> (http_error + nat) \<times> AppState \<times> db_file" where
  "reload_index env s db =
     (case st_model s of
        None \<Rightarrow> (Inl (HTTPException 503 Model_not_loaded), s, db)
      | Some _ \<Rightarrow>
          (case load_index_from_db db of
             (Inl e, db1) \<Rightarrow> (Inl (HTTPException 500 (Reload_failed e)), s, db1)
           | (Inr ix, db1) \<Rightarrow>
               (Inr (length (emb_matrix ix)),
                s\<lparr>st_index := Some ix, loaded_at := Some (now env)\<rparr>, db1)))"

text \<open>\<^verbatim>\<open>str.strip\<close> and \<^verbatim>\<open>str.lower\<close>, on ASCII.\<close>

definition py_isspace :: "char \<Rightarrow> bool" where
  "py_isspace c = ((of_char c :: nat) \<in> {9, 10, 11, 12, 13, 28, 29, 30, 31, 32})"

definition strip :: "string \<Rightarrow> string" where
  "strip s = rev (dropWhile py_isspace (rev (dropWhile py_isspace s)))"

definition lower_char :: "char \<Rightarrow> char" where
  "lower_char c =
     (let n = (of_char c :: nat) in if 65 \<le> n \<and> n \<le> 90 then char_of (n + 32) else c)"

definition lower :: "string \<Rightarrow> string" where
  "lower s = map lower_char s"

text \<open>
  The statement of lines 251-273 on a table whose unique index exists. A row with the
  natural key of the new row is updated in place and keeps its \<^verbatim>\<open>id\<close>; otherwise the new
  row is appended, unless its \<^verbatim>\<open>id\<close> is taken (the primary key).
\<close>

definition upsert :: "table \<Rightarrow> row \<Rightarrow> py_exc + table" where
  "upsert t new =
     (if \<not> has_ux t \<or> \<not> has_priority t then Inl OperationalError
      else if list_ex (\<lambda>r. nkey r = nkey new) (rows t) then
        Inr (t\<lparr>rows :=
               map (\<lambda>r. if nkey r = nkey new
                         then r\<lparr>r_priority := r_priority new, r_text := r_text new,
                                r_emb := r_emb new, r_dim := r_dim new,
                                r_created_at := r_created_at new\<rparr>
                         else r) (rows t)\<rparr>)
      else if list_ex (\<lambda>r. r_id r = r_id new) (rows t) then Inl IntegrityError
      else Inr (t\<lparr>rows := rows t @ [new]\<rparr>))"

definition sqlite_http :: "py_exc \<Rightarrow> http_error" where
  "sqlite_http e =
     (if e = IntegrityError then HTTPException 409 Integrity_error
      else HTTPException 500 DB_error)"

text \<open>
  The \<^verbatim>\<open>try\<close> block of lines 246-292: the schema check, the upsert with its commit, and
  the read of the stored \<^verbatim>\<open>id\<close> and \<^verbatim>\<open>dim\<close>. Connecting to a missing file creates an
  empty database.
\<close>

definition persist ::
  "env \<Rightarrow> db_file \<Rightarrow> StoreRequest \<Rightarrow> string \<Rightarrow> vec \<Rightarrow> (http_error + string \<times> int) \<times> db_file" where
  "persist env db req pr v =
     (case db of
        Missing \<Rightarrow> (Inl (sqlite_http OperationalError), NoTable)
      | NoTable \<Rightarrow> (Inl (sqlite_http OperationalError), NoTable)
      | Table t \<Rightarrow>
          (case ensure_schema t of
             Inl e \<Rightarrow> (Inl (sqlite_http e), Table t)
           | Inr t1 \<Rightarrow>
               (case upsert t1
                       \<lparr>r_id = new_id env, r_source_path = sq_source_path req,
                        r_kind = sq_kind req, r_chunk_index = sq_chunk_index req,
                        r_priority = Some pr, r_text = sq_text req, r_emb = v,
                        r_dim = int (length v), r_created_at = created_at env\<rparr> of
                  Inl e \<Rightarrow> (Inl (sqlite_http e), Table t1)
                | Inr t2 \<Rightarrow>
                    (case find (\<lambda>r. nkey r =
                                  (sq_source_path req, sq_kind req, sq_chunk_index req))
                            (rows t2) of
                       None \<Rightarrow> (Inl (HTTPException 500 Row_not_found), Table t2)
                     | Some r \<Rightarrow> (Inr (r_id r, r_dim r), Table t2)))))"

definition store ::
  "env \<Rightarrow> AppState \<Rightarrow> db_file \<Rightarrow> StoreRequest \<Rightarrow>
     (http_error + StoreResponse) \<times> AppState \<times> db_file" where
  "store env s db req =
     (case st_model s of
        None \<Rightarrow> (Inl (HTTPException 503 Service_not_ready), s, db)
      | Some enc \<Rightarrow>
          (case st_index s of
             None \<Rightarrow> (Inl (HTTPException 503 Service_not_ready), s, db)
           | Some _ \<Rightarrow>
               let pr = lower (strip (if sq_priority req = [] then ''normal''
                                      else sq_priority req)) in
               if pr \<notin> PRIORITIES then
                 (Inl (HTTPException 422 (Invalid_priority (sq_priority req))), s, db)
               else
                 (case enc (sq_text req) of
                    None \<Rightarrow> (Inl (HTTPException 500 Embedding_failed), s, db)
                  | Some v \<Rightarrow>
                      (case persist env db req pr v of
                         (Inl e, db1) \<Rightarrow> (Inl e, s, db1)
                       | (Inr (stored_id, stored_dim), db1) \<Rightarrow>
                           (case load_index_from_db db1 of
                              (Inl e, db2) \<Rightarrow>
                                (Inl (HTTPException 500 (Stored_but_reload_failed e)), s, db2)
                            | (Inr ix, db2) \<Rightarrow>
                                (Inr \<lparr>sp_ok = True, sp_id = stored_id, sp_dim = stored_dim\<rparr>,
                                 s\<lparr>st_index := Some ix, loaded_at := Some (now env)\<rparr>,
                                 db2))))))"

text \<open>
  Lines 325-327 and 334-336: the indices of the \<^verbatim>\<open>topk\<close> best scores, ordered by
  \<^verbatim>\<open>argsort\<close> of the negated scores.
\<close>

definition select_topk :: "numpy \<Rightarrow> real list \<Rightarrow> int \<Rightarrow> py_exc + nat list" where
  "select_topk np scores topk_req =
     (let topk = min topk_req (int (length scores)) in
      bindE (np_argpartition np (map uminus scores) (topk - 1)) (\<lambda>p.
      let idx = slice_to p topk in
      bindE (fancy scores idx) (\<lambda>sel.
      fancy idx (argsort np (map uminus sel)))))"

text \<open>Lines 340-351: one output record, read at row \<open>i\<close> of every column.\<close>

definition out_chunk :: "RagIndex \<Rightarrow> real \<Rightarrow> nat \<Rightarrow> py_exc + RetrievedChunk" where
  "out_chunk ix sc i =
     (if i < length (ix_source_path ix) \<and> i < length (ix_kind ix) \<and>
         i < length (ix_chunk_index ix) \<and> i < length (ix_priority ix) \<and>
         i < length (ix_text ix)
      then Inr \<lparr>rc_score = sc, rc_source_path = ix_source_path ix ! i,
                rc_kind = ix_kind ix ! i, rc_chunk_index = ix_chunk_index ix ! i,
                rc_priority = ix_priority ix ! i, rc_text = ix_text ix ! i\<rparr>
      else Inl IndexError)"

text \<open>
  The test \<^verbatim>\<open>if q.kind:\<close> of line 317: \<^verbatim>\<open>None\<close> and the empty string are falsy and
  select the branch without filter.
\<close>

definition kind_filter :: "Query \<Rightarrow> string option" where
  "kind_filter q = (case q_kind q of None \<Rightarrow> None | Some k \<Rightarrow> if k = [] then None else Some k)"

text \<open>
  Lines 315-337: the global row indices selected and their scores, or \<open>None\<close> for the
  early \<^verbatim>\<open>return []\<close> of line 320.
\<close>

definition search :: "numpy \<Rightarrow> RagIndex \<Rightarrow> vec \<Rightarrow> Query \<Rightarrow> py_exc + (nat list \<times> real list) option" where
  "search np ix qv q =
     (let topk_req = q_topk q in
      case kind_filter q of
        Some k \<Rightarrow>
          let msk = map (\<lambda>k'. k' = k) (ix_kind ix) in
          if \<not> list_ex (\<lambda>b. b) msk then Inr None
          else
            bindE (bool_index (emb_matrix ix) msk) (\<lambda>embs.
            bindE (matvec embs qv) (\<lambda>scores_local.
            bindE (select_topk np scores_local topk_req) (\<lambda>idx_local.
            bindE (fancy (flatnonzero msk) idx_local) (\<lambda>idx_global.
            bindE (fancy scores_local idx_local) (\<lambda>scores_sorted.
            Inr (Some (idx_global, scores_sorted)))))))
      | None \<Rightarrow>
          bindE (matvec (emb_matrix ix) qv) (\<lambda>scores.
          bindE (select_topk np scores topk_req) (\<lambda>idx_global.
          bindE (fancy scores idx_global) (\<lambda>scores_sorted.
          Inr (Some (idx_global, scores_sorted))))))"

definition retrieve :: "numpy \<Rightarrow> AppState \<Rightarrow> Query \<Rightarrow> http_error + RetrievedChunk list" where
  "retrieve np s q =
     (case st_model s of
        None \<Rightarrow> Inl (HTTPException 503 Service_not_ready)
      | Some enc \<Rightarrow>
          (case st_index s of
             None \<Rightarrow> Inl (HTTPException 503 Service_not_ready)
           | Some ix \<Rightarrow>
               (case enc (q_query q) of
                  None \<Rightarrow> Inl (HTTPException 500 Embedding_failed)
                | Some qv \<Rightarrow>
                    (case search np ix qv q of
                       Inl e \<Rightarrow> Inl (Unhandled e)
                     | Inr None \<Rightarrow> Inr []
                     | Inr (Some (idx_global, scores_sorted)) \<Rightarrow>
                         (case collect (map (\<lambda>(sc, i). out_chunk ix sc i)
                                            (zip scores_sorted idx_global)) of
                            Inl e \<Rightarrow> Inl (Unhandled e)
                          | Inr out \<Rightarrow> Inr out)))))"

section \<open>Notions used in the statements\<close>

text \<open>The vector the index holds for a row: its blob decoded and renormalized.\<close>

definition row_vec :: "row \<Rightarrow> vec" where
  "row_vec r = (case frombuffer (r_emb r) (r_dim r) of Inl _ \<Rightarrow> [] | Inr v \<Rightarrow> renormalize v)"

text \<open>A snapshot whose columns and matrix have one length, and whose matrix is rectangular.\<close>

definition aligned :: "RagIndex \<Rightarrow> bool" where
  "aligned ix =
     (let n = length (emb_matrix ix) in
      0 < n \<and> length (ix_source_path ix) = n \<and> length (ix_kind ix) = n \<and>
      length (ix_chunk_index ix) = n \<and> length (ix_priority ix) = n \<and>
      length (ix_text ix) = n \<and>
      list_all (\<lambda>v. length v = length (hd (emb_matrix ix))) (emb_matrix ix))"

text \<open>The number of rows a query's filter leaves.\<close>

definition candidate_count :: "RagIndex \<Rightarrow> Query \<Rightarrow> nat" where
  "candidate_count ix q =
     (case kind_filter q of
        None \<Rightarrow> length (emb_matrix ix)
      | Some k \<Rightarrow> length (filter (\<lambda>k'. k' = k) (ix_kind ix)))"

text \<open>The record \<^verbatim>\<open>retrieve\<close> returns for row \<open>i\<close> with score \<open>sc\<close>.\<close>

definition chunk_at :: "RagIndex \<Rightarrow> real \<Rightarrow> nat \<Rightarrow> RetrievedChunk" where
  "chunk_at ix sc i =
     \<lparr>rc_score = sc, rc_source_path = ix_source_path ix ! i, rc_kind = ix_kind ix ! i,
      rc_chunk_index = ix_chunk_index ix ! i, rc_priority = ix_priority ix ! i,
      rc_text = ix_text ix ! i\<rparr>"

section \<open>Concrete data for the instances\<close>

text \<open>
  Two implementations of the numpy parameters that meet \<open>numpy_contract\<close>. Both sort
  the indices by key with a stable sort. In the first, equal keys keep ascending index
  order everywhere. In the second, \<^verbatim>\<open>argsort\<close> starts from descending indices, so equal keys
  come out in descending index order.
\<close>

definition np_ref :: numpy where
  "np_ref = \<lparr>argpartition = (\<lambda>a k. sort_key (\<lambda>i. a ! i) [0..<length a]),
             argsort = (\<lambda>a. sort_key (\<lambda>i. a ! i) [0..<length a])\<rparr>"


definition enc0 :: encoder where
  "enc0 t = (if t = ''hay'' then Some [0, 1] else Some [1, 0])"

definition row_a :: row where
  "row_a = \<lparr>r_id = ''a'', r_source_path = ''j1.md'', r_kind = ''journal'', r_chunk_index = 0,
            r_priority = Some ''normal'', r_text = ''cow'', r_emb = [1, 0], r_dim = 2,
            r_created_at = ''t0''\<rparr>"

definition row_b :: row where
  "row_b = \<lparr>r_id = ''b'', r_source_path = ''k1.md'', r_kind = ''knowledge'', r_chunk_index = 0,
            r_priority = Some ''high'', r_text = ''hay'', r_emb = [0, 1], r_dim = 2,
            r_created_at = ''t0''\<rparr>"

definition row_c :: row where
  "row_c = \<lparr>r_id = ''c'', r_source_path = ''j1.md'', r_kind = ''journal'', r_chunk_index = 1,
            r_priority = None, r_text = ''calf'', r_emb = [2, 0], r_dim = 2,
            r_created_at = ''t0''\<rparr>"

definition db0 :: db_file where
  "db0 = Table \<lparr>rows = [row_a, row_b, row_c], has_ux = True, has_priority = True\<rparr>"

definition ix0 :: RagIndex where
  "ix0 = \<lparr>ix_source_path = [''j1.md'', ''k1.md'', ''j1.md''],
          ix_kind = [''journal'', ''knowledge'', ''journal''],
          ix_chunk_index = [0, 0, 1],
          ix_priority = [''normal'', ''high'', ''normal''],
          ix_text = [''cow'', ''hay'', ''calf''],
          emb_matrix = [[1, 0], [0, 1], [1, 0]]\<rparr>"

definition s0 :: AppState where
  "s0 = \<lparr>st_model = Some enc0, st_index = Some ix0, loaded_at = Some 0\<rparr>"

text \<open>Lines 231-233: the priority \<^verbatim>\<open>store\<close> validates and writes.\<close>

definition store_priority :: "StoreRequest \<Rightarrow> string" where
  "store_priority req =
     lower (strip (if sq_priority req = [] then ''normal'' else sq_priority req))"

text \<open>The row \<^verbatim>\<open>store\<close> binds to the \<^verbatim>\<open>INSERT\<close> of lines 251-273.\<close>

definition new_row :: "env \<Rightarrow> StoreRequest \<Rightarrow> string \<Rightarrow> vec \<Rightarrow> row" where
  "new_row env req pr v =
     \<lparr>r_id = new_id env, r_source_path = sq_source_path req, r_kind = sq_kind req,
      r_chunk_index = sq_chunk_index req, r_priority = Some pr, r_text = sq_text req,
      r_emb = v, r_dim = int (length v), r_created_at = created_at env\<rparr>"

definition req_key :: "StoreRequest \<Rightarrow> string \<times> string \<times> int" where
  "req_key req = (sq_source_path req, sq_kind req, sq_chunk_index req)"

text \<open>What the conflict clause of the upsert does to an existing row.\<close>

definition overwrite :: "row \<Rightarrow> row \<Rightarrow> row" where
  "overwrite new r =
     r\<lparr>r_priority := r_priority new, r_text := r_text new, r_emb := r_emb new,
       r_dim := r_dim new, r_created_at := r_created_at new\<rparr>"

text \<open>
  More concrete data: a call environment, a request, a model with vectors of dimension 3,
  and a table whose second row has another \<^verbatim>\<open>dim\<close> than the first.
\<close>

definition env0 :: env where
  "env0 = \<lparr>new_id = ''n1'', created_at = ''t1'', now = 7, loaded_model = Some enc0\<rparr>"

definition req0 :: StoreRequest where
  "req0 = \<lparr>sq_source_path = ''j2.md'', sq_kind = ''journal'', sq_chunk_index = 0,
           sq_text = ''goat'', sq_priority = '' High''\<rparr>"

definition enc3 :: encoder where
  "enc3 t = Some [0, 0, 1]"

definition s_wide :: AppState where
  "s_wide = \<lparr>st_model = Some enc3, st_index = Some ix0, loaded_at = Some 0\<rparr>"

definition row_d :: row where
  "row_d = \<lparr>r_id = ''d'', r_source_path = ''k2.md'', r_kind = ''knowledge'', r_chunk_index = 0,
            r_priority = Some ''normal'', r_text = ''oats'', r_emb = [0, 0, 1], r_dim = 3,
            r_created_at = ''t0''\<rparr>"

definition db_mixed :: db_file where
  "db_mixed = Table \<lparr>rows = [row_a, row_d], has_ux = True, has_priority = True\<rparr>"

definition db0_stored :: db_file where
  "db0_stored =
     Table \<lparr>rows = [row_a, row_b, row_c, new_row env0 req0 ''high'' [0, 0, 1]],
            has_ux = True, has_priority = True\<rparr>"

definition env1 :: env where
  "env1 = \<lparr>new_id = ''n2'', created_at = ''t2'', now = 8, loaded_model = Some enc0\<rparr>"

definition req1 :: StoreRequest where
  "req1 = \<lparr>sq_source_path = ''j2.md'', sq_kind = ''journal'', sq_chunk_index = 0,
           sq_text = ''hay'', sq_priority = ''normal''\<rparr>"

definition db_s1 :: db_file where
  "db_s1 = Table \<lparr>rows = [row_a, row_b, row_c, new_row env0 req0 ''high'' [1, 0]],
                  has_ux = True, has_priority = True\<rparr>"

definition db_s2 :: db_file where
  "db_s2 = Table \<lparr>rows = [row_a, row_b, row_c,
                          (new_row env1 req1 ''normal'' [0, 1])\<lparr>r_id := ''n1''\<rparr>],
                  has_ux = True, has_priority = True\<rparr>"

definition ix_s1 :: RagIndex where
  "ix_s1 = \<lparr>ix_source_path = [''j1.md'', ''k1.md'', ''j1.md'', ''j2.md''],
          ix_kind = [''journal'', ''knowledge'', ''journal'', ''journal''],
          ix_chunk_index = [0, 0, 1, 0],
          ix_priority = [''normal'', ''high'', ''normal'', ''high''],
          ix_text = [''cow'', ''hay'', ''calf'', ''goat''],
          emb_matrix = [[1, 0], [0, 1], [1, 0], [1, 0]]\<rparr>"

definition ix_s2 :: RagIndex where
  "ix_s2 = \<lparr>ix_source_path = [''j1.md'', ''k1.md'', ''j1.md'', ''j2.md''],
          ix_kind = [''journal'', ''knowledge'', ''journal'', ''journal''],
          ix_chunk_index = [0, 0, 1, 0],
          ix_priority = [''normal'', ''high'', ''normal'', ''normal''],
          ix_text = [''cow'', ''hay'', ''calf'', ''hay''],
          emb_matrix = [[1, 0], [0, 1], [1, 0], [0, 1]]\<rparr>"

text \<open>A table holding two rows whose \<^verbatim>\<open>dim\<close> values differ.\<close>

definition mixed_dims :: "row list \<Rightarrow> bool" where
  "mixed_dims rs = (\<exists>r1\<in>set rs. \<exists>r2\<in>set rs. r_dim r1 \<noteq> r_dim r2)"

text \<open>A database file whose table holds two rows with different \<^verbatim>\<open>dim\<close> values.\<close>

definition mixed_db :: "db_file \<Rightarrow> bool" where
  "mixed_db db = (case db of Table t \<Rightarrow> mixed_dims (rows t) | _ \<Rightarrow> False)"

text \<open>
  The requests the service can receive, and the state and database they leave. A run is
  any sequence of them.
\<close>

datatype op = Startup env | Reload env | Store env StoreRequest | Retrieve Query

definition step :: "op \<Rightarrow> AppState \<times> db_file \<Rightarrow> AppState \<times> db_file" where
  "step rq sd =
     (case sd of (s, db) \<Rightarrow>
        (case rq of
           Startup env \<Rightarrow> snd (startup env s db)
         | Reload env \<Rightarrow> snd (reload_index env s db)
         | Store env req \<Rightarrow> snd (store env s db req)
         | Retrieve q \<Rightarrow> (s, db)))"

definition run :: "op list \<Rightarrow> AppState \<times> db_file \<Rightarrow> AppState \<times> db_file" where
  "run ops sd = foldl (\<lambda>sd rq. step rq sd) sd ops"

definition row_e :: row where
  "row_e = \<lparr>r_id = ''e'', r_source_path = ''k3.md'', r_kind = ''knowledge'', r_chunk_index = 0,
            r_priority = Some ''normal'', r_text = ''rye'', r_emb = [1], r_dim = 2,
            r_created_at = ''t0''\<rparr>"

definition db_short :: db_file where
  "db_short = Table \<lparr>rows = [row_e, row_d], has_ux = True, has_priority = True\<rparr>"









section \<open>Properties\<close>

subsection \<open>Selection of the best scores\<close>

lemma is_permutation_distinct: "is_permutation n p \<Longrightarrow> distinct p"
  unfolding is_permutation_def by (metis card_atLeastLessThan card_distinct diff_zero)

lemma is_permutation_lt: "is_permutation n p \<Longrightarrow> j \<in> set p \<Longrightarrow> j < n"
  unfolding is_permutation_def by auto

lemma select_topk_ok:
  assumes np: "numpy_contract np" and ne: "scores \<noteq> []" and k: "1 \<le> topk_req"
  shows "\<exists>idx. select_topk np scores topk_req = Inr idx \<and>
           length idx = min (nat topk_req) (length scores) \<and>
           (\<forall>j\<in>set idx. j < length scores) \<and> distinct idx \<and>
           sorted_wrt (\<lambda>a b. a \<ge> b) (map (\<lambda>j. scores ! j) idx) \<and>
           (\<forall>j<length scores. \<exists>i\<in>set idx. scores ! j \<le> scores ! i)"
proof -
  let ?n = "length scores"
  let ?a = "map uminus scores"
  define topk where "topk = min topk_req (int ?n)"
  have n0: "0 < ?n" using ne by simp
  have topk1: "1 \<le> topk" "topk \<le> int ?n" using k n0 by (auto simp: topk_def Suc_le_eq)
  define p where "p = argpartition np ?a (nat (topk - 1))"
  have kth: "nat (topk - 1) < length ?a" using topk1 by simp
  have part: "np_argpartition np ?a (topk - 1) = Inr p"
    using topk1 by (simp add: np_argpartition_def p_def Let_def)
  have part_p: "is_argpartition ?a (nat (topk - 1)) p"
    using np kth unfolding numpy_contract_def p_def by blast
  then have perm: "is_permutation ?n p" by (simp add: is_argpartition_def)
  define idx where "idx = slice_to p topk"
  have idx_take: "idx = take (nat topk) p" using topk1 by (simp add: idx_def slice_to_def)
  have lenp: "length p = ?n" using perm by (simp add: is_permutation_def)
  have len_idx: "length idx = nat topk" using topk1 lenp by (simp add: idx_take)
  have idx_lt: "\<forall>j\<in>set idx. j < ?n"
    using is_permutation_lt[OF perm] by (auto simp: idx_take dest: in_set_takeD)
  have idx_dist: "distinct idx" using is_permutation_distinct[OF perm] by (simp add: idx_take)
  define sel where "sel = map (\<lambda>j. scores ! j) idx"
  have f1: "fancy scores idx = Inr sel"
    using idx_lt by (simp add: fancy_def sel_def list_all_iff)
  define p2 where "p2 = argsort np (map uminus sel)"
  have as: "is_argsort (map uminus sel) p2"
    using np unfolding numpy_contract_def p2_def by blast
  then have perm2: "is_permutation (length idx) p2"
    by (simp add: is_argsort_def sel_def)
  have p2_lt: "\<forall>j\<in>set p2. j < length idx" using is_permutation_lt[OF perm2] by blast
  have f2: "fancy idx p2 = Inr (map (\<lambda>j. idx ! j) p2)"
    using p2_lt by (simp add: fancy_def list_all_iff)
  have res: "select_topk np scores topk_req = Inr (map (\<lambda>j. idx ! j) p2)"
    unfolding select_topk_def Let_def bindE_def
    using part f1 f2 by (simp add: topk_def[symmetric] idx_def[symmetric] p2_def[symmetric])
  have len: "length (map (\<lambda>j. idx ! j) p2) = min (nat topk_req) ?n"
    using perm2 len_idx k by (auto simp: is_permutation_def topk_def)
  have lt: "\<forall>j\<in>set (map (\<lambda>j. idx ! j) p2). j < ?n"
    using p2_lt idx_lt by auto
  have dist: "distinct (map (\<lambda>j. idx ! j) p2)"
    using is_permutation_distinct[OF perm2] p2_lt idx_dist
    by (auto simp: distinct_map inj_on_def nth_eq_iff_index_eq)
  have "sorted (map (\<lambda>j. map uminus sel ! j) p2)" using as by (simp add: is_argsort_def)
  moreover have "map (\<lambda>j. map uminus sel ! j) p2 = map uminus (map (\<lambda>j. sel ! j) p2)"
    using p2_lt by (simp add: sel_def)
  ultimately have "sorted (map uminus (map (\<lambda>j. sel ! j) p2))" by simp
  then have "sorted_wrt (\<lambda>a b. a \<ge> b) (map (\<lambda>j. sel ! j) p2)"
    by (simp add: sorted_wrt_map)
  moreover have "map (\<lambda>j. sel ! j) p2 = map (\<lambda>j. scores ! j) (map (\<lambda>j. idx ! j) p2)"
    using p2_lt by (simp add: sel_def)
  ultimately have srt: "sorted_wrt (\<lambda>a b. a \<ge> b) (map (\<lambda>j. scores ! j) (map (\<lambda>j. idx ! j) p2))"
    by simp
  have set2: "set (map (\<lambda>j. idx ! j) p2) = set idx"
  proof -
    have "set p2 = {0..<length idx}" using perm2 by (simp add: is_permutation_def)
    then have "set (map (\<lambda>j. idx ! j) p2) = (\<lambda>j. idx ! j) ` {0..<length idx}" by simp
    also have "\<dots> = set idx" by (auto simp: set_conv_nth)
    finally show ?thesis .
  qed
  have top: "\<forall>j<?n. \<exists>i\<in>set (map (\<lambda>j. idx ! j) p2). scores ! j \<le> scores ! i"
  proof (intro allI impI)
    fix j assume j: "j < ?n"
    have "j \<in> set p" using perm j by (simp add: is_permutation_def)
    then obtain m where m: "m < ?n" "p ! m = j" using lenp by (auto simp: in_set_conv_nth)
    have kin: "p ! nat (topk - 1) \<in> set idx"
      using topk1 lenp by (auto simp: idx_take in_set_conv_nth intro!: exI[of _ "nat (topk - 1)"])
    show "\<exists>i\<in>set (map (\<lambda>j. idx ! j) p2). scores ! j \<le> scores ! i"
    proof (cases "m < nat topk")
      case True
      then have "j \<in> set idx"
        using m lenp by (auto simp: idx_take in_set_conv_nth intro!: exI[of _ m])
      then show ?thesis unfolding set2 by auto
    next
      case False
      then have km: "nat (topk - 1) < m" using topk1 by linarith
      have "\<forall>i. nat (topk - 1) < i \<and> i < length ?a \<longrightarrow>
              ?a ! (p ! nat (topk - 1)) \<le> ?a ! (p ! i)"
        using part_p unfolding is_argpartition_def by blast
      then have "?a ! (p ! nat (topk - 1)) \<le> ?a ! (p ! m)"
        using km m(1) by simp
      moreover have "p ! nat (topk - 1) < ?n"
        using is_permutation_lt[OF perm] kth lenp by (metis length_map nth_mem)
      ultimately have "scores ! j \<le> scores ! (p ! nat (topk - 1))" using m j by simp
      then show ?thesis unfolding set2 using kin by blast
    qed
  qed
  show ?thesis using res len lt dist srt top by blast
qed

lemma flatnonzero_snoc:
  "flatnonzero (msk @ [b]) = flatnonzero msk @ (if b then [length msk] else [])"
proof -
  have "filter (\<lambda>i. (msk @ [b]) ! i) [0..<length msk] = filter (\<lambda>i. msk ! i) [0..<length msk]"
    by (rule filter_cong) (auto simp: nth_append)
  then show ?thesis by (simp add: flatnonzero_def)
qed

lemma flatnonzero_lt: "i \<in> set (flatnonzero msk) \<Longrightarrow> i < length msk \<and> msk ! i"
  by (auto simp: flatnonzero_def)

lemma bool_index_flatnonzero:
  "length xs = length msk \<Longrightarrow>
     map fst (filter snd (zip xs msk)) = map (\<lambda>i. xs ! i) (flatnonzero msk)"
proof (induction msk arbitrary: xs rule: rev_induct)
  case Nil
  then show ?case by (simp add: flatnonzero_def)
next
  case (snoc b msk)
  then obtain ys y where xs: "xs = ys @ [y]" and len: "length ys = length msk"
    by (cases xs rule: rev_cases) auto
  have "map (\<lambda>i. (ys @ [y]) ! i) (flatnonzero msk) = map (\<lambda>i. ys ! i) (flatnonzero msk)"
    using len by (auto simp: nth_append dest: flatnonzero_lt)
  then show ?case
    using snoc.IH[OF len] len by (auto simp: xs flatnonzero_snoc nth_append)
qed

lemma length_flatnonzero_map:
  "length (flatnonzero (map P xs)) = length (filter P xs)"
proof (induction xs rule: rev_induct)
  case Nil
  then show ?case by (simp add: flatnonzero_def)
next
  case (snoc x xs)
  then show ?case using flatnonzero_snoc[of "map P xs" "P x"] by simp
qed

lemma collect_map_Inr:
  "(\<And>x. x \<in> set xs \<Longrightarrow> f x = Inr (g x)) \<Longrightarrow> collect (map f xs) = Inr (map g xs)"
  by (induction xs) auto

lemma out_chunk_aligned:
  "aligned ix \<Longrightarrow> i < length (emb_matrix ix) \<Longrightarrow> out_chunk ix sc i = Inr (chunk_at ix sc i)"
  by (simp add: aligned_def out_chunk_def chunk_at_def Let_def)

lemma matvec_Inr:
  "\<forall>v\<in>set m. length v = length qv \<Longrightarrow> matvec m qv = Inr (map (\<lambda>r. dot r qv) m)"
  by (simp add: matvec_def list_all_iff)

text \<open>What search returns, branch by branch.\<close>

lemma search_nofilter:
  assumes np: "numpy_contract np" and al: "aligned ix"
    and dims: "\<forall>v\<in>set (emb_matrix ix). length v = length qv"
    and k: "1 \<le> q_topk q" and kf: "kind_filter q = None"
  shows "\<exists>ig. search np ix qv q = Inr (Some (ig, map (\<lambda>i. dot (emb_matrix ix ! i) qv) ig)) \<and>
           length ig = min (nat (q_topk q)) (length (emb_matrix ix)) \<and> distinct ig \<and>
           (\<forall>i\<in>set ig. i < length (emb_matrix ix)) \<and>
           sorted_wrt (\<lambda>a b. a \<ge> b) (map (\<lambda>i. dot (emb_matrix ix ! i) qv) ig) \<and>
           (\<forall>j<length (emb_matrix ix).
              \<exists>i\<in>set ig. dot (emb_matrix ix ! j) qv \<le> dot (emb_matrix ix ! i) qv)"
proof -
  define scores where "scores = map (\<lambda>r. dot r qv) (emb_matrix ix)"
  have mv: "matvec (emb_matrix ix) qv = Inr scores"
    using dims by (simp add: matvec_Inr scores_def)
  have ne: "scores \<noteq> []" using al by (auto simp: aligned_def scores_def Let_def)
  from select_topk_ok[OF np ne k] obtain ig where
    sel: "select_topk np scores (q_topk q) = Inr ig" and
    len: "length ig = min (nat (q_topk q)) (length scores)" and
    lt: "\<forall>j\<in>set ig. j < length scores" and dist: "distinct ig" and
    srt: "sorted_wrt (\<lambda>a b. a \<ge> b) (map (\<lambda>j. scores ! j) ig)" and
    top: "\<forall>j<length scores. \<exists>i\<in>set ig. scores ! j \<le> scores ! i" by blast
  have eq: "map (\<lambda>j. scores ! j) ig = map (\<lambda>i. dot (emb_matrix ix ! i) qv) ig"
    using lt by (simp add: scores_def)
  have f: "fancy scores ig = Inr (map (\<lambda>i. dot (emb_matrix ix ! i) qv) ig)"
    using lt eq by (simp add: fancy_def list_all_iff)
  have res: "search np ix qv q = Inr (Some (ig, map (\<lambda>i. dot (emb_matrix ix ! i) qv) ig))"
    by (simp add: search_def kf mv sel f bindE_def)
  have srt': "sorted_wrt (\<lambda>a b. a \<ge> b) (map (\<lambda>i. dot (emb_matrix ix ! i) qv) ig)"
    using srt eq by simp
  have top': "\<forall>j<length (emb_matrix ix).
              \<exists>i\<in>set ig. dot (emb_matrix ix ! j) qv \<le> dot (emb_matrix ix ! i) qv"
  proof (intro allI impI)
    fix j assume j: "j < length (emb_matrix ix)"
    then have "j < length scores" by (simp add: scores_def)
    with top obtain i where i: "i \<in> set ig" "scores ! j \<le> scores ! i" by blast
    then have "i < length (emb_matrix ix)" using lt by (simp add: scores_def)
    then show "\<exists>i\<in>set ig. dot (emb_matrix ix ! j) qv \<le> dot (emb_matrix ix ! i) qv"
      using i j by (auto simp: scores_def)
  qed
  have len': "length ig = min (nat (q_topk q)) (length (emb_matrix ix))"
    using len by (simp add: scores_def)
  have lt': "\<forall>i\<in>set ig. i < length (emb_matrix ix)" using lt by (simp add: scores_def)
  show ?thesis using res len' dist lt' srt' top' by blast
qed

lemma search_filter_none:
  assumes kf: "kind_filter q = Some k" and no: "k \<notin> set (ix_kind ix)"
  shows "search np ix qv q = Inr None"
  using no by (auto simp: search_def kf list_ex_iff Let_def)

lemma search_filter:
  assumes np: "numpy_contract np" and al: "aligned ix"
    and dims: "\<forall>v\<in>set (emb_matrix ix). length v = length qv"
    and k: "1 \<le> q_topk q" and kf: "kind_filter q = Some kd" and ex: "kd \<in> set (ix_kind ix)"
  shows "\<exists>ig. search np ix qv q = Inr (Some (ig, map (\<lambda>i. dot (emb_matrix ix ! i) qv) ig)) \<and>
           length ig = min (nat (q_topk q)) (length (filter (\<lambda>k'. k' = kd) (ix_kind ix))) \<and>
           distinct ig \<and>
           (\<forall>i\<in>set ig. i < length (emb_matrix ix) \<and> ix_kind ix ! i = kd) \<and>
           sorted_wrt (\<lambda>a b. a \<ge> b) (map (\<lambda>i. dot (emb_matrix ix ! i) qv) ig) \<and>
           (\<forall>j<length (emb_matrix ix). ix_kind ix ! j = kd \<longrightarrow>
              (\<exists>i\<in>set ig. dot (emb_matrix ix ! j) qv \<le> dot (emb_matrix ix ! i) qv))"
proof -
  define msk where "msk = map (\<lambda>k'. k' = kd) (ix_kind ix)"
  define fz where "fz = flatnonzero msk"
  have lenm: "length (emb_matrix ix) = length msk"
    using al by (simp add: aligned_def msk_def Let_def)
  have any: "list_ex (\<lambda>b. b) msk" using ex by (auto simp: msk_def list_ex_iff)
  define embs where "embs = map (\<lambda>i. emb_matrix ix ! i) fz"
  have bi: "bool_index (emb_matrix ix) msk = Inr embs"
    using lenm by (simp add: bool_index_def bool_index_flatnonzero embs_def fz_def)
  have fz_lt: "\<forall>i\<in>set fz. i < length (emb_matrix ix) \<and> ix_kind ix ! i = kd"
  proof
    fix i assume "i \<in> set fz"
    then have "i < length msk" "msk ! i" using flatnonzero_lt[of i msk] by (auto simp: fz_def)
    then show "i < length (emb_matrix ix) \<and> ix_kind ix ! i = kd"
      using lenm by (simp add: msk_def)
  qed
  have fz_dist: "distinct fz" by (simp add: fz_def flatnonzero_def)
  have len_fz: "length fz = length (filter (\<lambda>k'. k' = kd) (ix_kind ix))"
    by (simp add: fz_def msk_def length_flatnonzero_map)
  define scores where "scores = map (\<lambda>r. dot r qv) embs"
  have "\<forall>v\<in>set embs. length v = length qv"
    using dims fz_lt by (auto simp: embs_def)
  then have mv: "matvec embs qv = Inr scores" by (simp add: matvec_Inr scores_def)
  have "filter (\<lambda>k'. k' = kd) (ix_kind ix) \<noteq> []" using ex by (auto simp: filter_empty_conv)
  then have ne: "scores \<noteq> []" using len_fz by (auto simp: scores_def embs_def)
  have len_sc: "length scores = length fz" by (simp add: scores_def embs_def)
  from select_topk_ok[OF np ne k] obtain il where
    sel: "select_topk np scores (q_topk q) = Inr il" and
    len: "length il = min (nat (q_topk q)) (length scores)" and
    lt: "\<forall>j\<in>set il. j < length scores" and dist: "distinct il" and
    srt: "sorted_wrt (\<lambda>a b. a \<ge> b) (map (\<lambda>j. scores ! j) il)" and
    top: "\<forall>j<length scores. \<exists>i\<in>set il. scores ! j \<le> scores ! i" by blast
  define ig where "ig = map (\<lambda>j. fz ! j) il"
  have f1: "fancy fz il = Inr ig"
    using lt len_sc by (simp add: fancy_def list_all_iff ig_def)
  have eq: "map (\<lambda>j. scores ! j) il = map (\<lambda>i. dot (emb_matrix ix ! i) qv) ig"
    using lt len_sc by (simp add: scores_def embs_def ig_def)
  have f2: "fancy scores il = Inr (map (\<lambda>i. dot (emb_matrix ix ! i) qv) ig)"
    using lt eq by (simp add: fancy_def list_all_iff)
  have res: "search np ix qv q = Inr (Some (ig, map (\<lambda>i. dot (emb_matrix ix ! i) qv) ig))"
    using any
    by (simp add: search_def kf msk_def[symmetric] bi mv sel fz_def[symmetric] f1 f2 bindE_def)
  have ig_lt: "\<forall>i\<in>set ig. i < length (emb_matrix ix) \<and> ix_kind ix ! i = kd"
    using lt len_sc fz_lt by (auto simp: ig_def)
  have ig_dist: "distinct ig"
    using dist lt len_sc fz_dist by (auto simp: ig_def distinct_map inj_on_def nth_eq_iff_index_eq)
  have srt': "sorted_wrt (\<lambda>a b. a \<ge> b) (map (\<lambda>i. dot (emb_matrix ix ! i) qv) ig)"
    using srt eq by simp
  have len': "length ig = min (nat (q_topk q)) (length (filter (\<lambda>k'. k' = kd) (ix_kind ix)))"
    using len len_sc len_fz by (simp add: ig_def)
  have top': "\<forall>j<length (emb_matrix ix). ix_kind ix ! j = kd \<longrightarrow>
              (\<exists>i\<in>set ig. dot (emb_matrix ix ! j) qv \<le> dot (emb_matrix ix ! i) qv)"
  proof (intro allI impI)
    fix j assume j: "j < length (emb_matrix ix)" and kj: "ix_kind ix ! j = kd"
    have "j < length msk" "msk ! j" using j kj lenm by (simp_all add: msk_def)
    then have "j \<in> set fz" by (simp add: fz_def flatnonzero_def)
    then obtain m where m: "m < length fz" "fz ! m = j" by (auto simp: in_set_conv_nth)
    then have sm: "scores ! m = dot (emb_matrix ix ! j) qv" by (simp add: scores_def embs_def)
    from top m len_sc obtain n where n: "n \<in> set il" "scores ! m \<le> scores ! n" by auto
    then have nl: "n < length fz" using lt len_sc by auto
    then have sn: "scores ! n = dot (emb_matrix ix ! (fz ! n)) qv"
      by (simp add: scores_def embs_def)
    have "fz ! n \<in> set ig" using n(1) by (auto simp: ig_def)
    then show "\<exists>i\<in>set ig. dot (emb_matrix ix ! j) qv \<le> dot (emb_matrix ix ! i) qv"
      using n(2) sm sn by auto
  qed
  show ?thesis using res len' ig_lt ig_dist srt' top' by blast
qed

subsection \<open>What index construction returns\<close>

lemma load_loop_Inr:
  "load_loop dim0 rs acc = Inr acc' \<Longrightarrow>
     ix_source_path acc' = ix_source_path acc @ map r_source_path rs \<and>
     ix_kind acc' = ix_kind acc @ map r_kind rs \<and>
     ix_chunk_index acc' = ix_chunk_index acc @ map r_chunk_index rs \<and>
     ix_priority acc' = ix_priority acc @ map (\<lambda>r. load_priority (r_priority r)) rs \<and>
     ix_text acc' = ix_text acc @ map r_text rs \<and>
     emb_matrix acc' = emb_matrix acc @ map row_vec rs \<and>
     (\<forall>r\<in>set rs. r_dim r = dim0 \<and> (\<exists>v. frombuffer (r_emb r) (r_dim r) = Inr v))"
proof (induction rs arbitrary: acc)
  case Nil
  then show ?case by simp
next
  case (Cons r rs)
  from Cons.prems obtain v where d: "r_dim r = dim0"
    and fb: "frombuffer (r_emb r) (r_dim r) = Inr v"
    and rest: "load_loop dim0 rs
        (acc\<lparr>ix_source_path := ix_source_path acc @ [r_source_path r],
             ix_kind := ix_kind acc @ [r_kind r],
             ix_chunk_index := ix_chunk_index acc @ [r_chunk_index r],
             ix_priority := ix_priority acc @ [load_priority (r_priority r)],
             ix_text := ix_text acc @ [r_text r],
             emb_matrix := emb_matrix acc @ [renormalize v]\<rparr>) = Inr acc'"
    by (auto split: if_splits sum.splits)
  have rv: "row_vec r = renormalize v" using fb by (simp add: row_vec_def)
  from Cons.IH[OF rest] show ?case using d fb rv by force
qed

lemma build_index_Inr:
  assumes "build_index rs = Inr ix"
  shows "rs \<noteq> [] \<and>
     ix_source_path ix = map r_source_path rs \<and>
     ix_kind ix = map r_kind rs \<and>
     ix_chunk_index ix = map r_chunk_index rs \<and>
     ix_priority ix = map (\<lambda>r. load_priority (r_priority r)) rs \<and>
     ix_text ix = map r_text rs \<and>
     emb_matrix ix = map row_vec rs \<and>
     (\<forall>r\<in>set rs. r_dim r = r_dim (hd rs) \<and> (\<exists>v. frombuffer (r_emb r) (r_dim r) = Inr v)) \<and>
     list_all (\<lambda>v. length v = length (hd (emb_matrix ix))) (emb_matrix ix)"
proof -
  from assms obtain r0 rs' where rs: "rs = r0 # rs'"
    by (cases rs) (auto simp: build_index_def)
  from assms obtain acc m where ll: "load_loop (r_dim r0) rs no_columns = Inr acc"
    and vs: "vstack (emb_matrix acc) = Inr m" and ix: "ix = acc\<lparr>emb_matrix := m\<rparr>"
    by (auto simp: build_index_def rs bindE_def split: sum.splits)
  have m: "m = emb_matrix acc" and rect: "list_all (\<lambda>w. length w = length (hd m)) m"
    using vs by (cases "emb_matrix acc"; auto simp: vstack_def split: if_splits)+
  from load_loop_Inr[OF ll] show ?thesis
    using rect by (auto simp: ix m no_columns_def rs)
qed

lemma load_index_Inr:
  assumes "load_index_from_db db = (Inr ix, db')"
  shows "\<exists>rs. select_rows db = (Inr rs, db') \<and> build_index rs = Inr ix"
  using assms
  by (auto simp: load_index_from_db_def bindE_def split: prod.splits sum.splits)

lemma build_index_aligned: "build_index rs = Inr ix \<Longrightarrow> aligned ix"
  using build_index_Inr[of rs ix] by (auto simp: aligned_def Let_def)

lemma load_index_aligned: "load_index_from_db db = (Inr ix, db') \<Longrightarrow> aligned ix"
  using load_index_Inr build_index_aligned by blast

subsection \<open>What \<^verbatim>\<open>retrieve\<close> returns\<close>

lemma retrieve_of_search:
  assumes "st_model s = Some enc" and "st_index s = Some ix" and "enc (q_query q) = Some qv"
    and "search np ix qv q = Inr (Some (ig, ss))"
    and "aligned ix" and "\<forall>i\<in>set ig. i < length (emb_matrix ix)"
  shows "retrieve np s q = Inr (map (\<lambda>(sc, i). chunk_at ix sc i) (zip ss ig))"
proof -
  have "collect (map (\<lambda>(sc, i). out_chunk ix sc i) (zip ss ig)) =
        Inr (map (\<lambda>(sc, i). chunk_at ix sc i) (zip ss ig))"
    using assms(5,6) by (intro collect_map_Inr) (auto simp: out_chunk_aligned dest: set_zip_rightD)
  then show ?thesis using assms(1-4) by (simp add: retrieve_def)
qed

lemma zip_map_same:
  "map (\<lambda>(sc, i). chunk_at ix sc i) (zip (map f ig) ig) = map (\<lambda>i. chunk_at ix (f i) i) ig"
  by (induction ig) auto

text \<open>
  On a ready service whose model answers with a vector of the snapshot's dimension,
  \<^verbatim>\<open>retrieve\<close> returns the rows \<open>ig\<close> it selected, each with its own score.
\<close>

lemma retrieve_rows:
  assumes np: "numpy_contract np" and al: "aligned ix"
    and m: "st_model s = Some enc" and i: "st_index s = Some ix"
    and e: "enc (q_query q) = Some qv"
    and dims: "\<forall>v\<in>set (emb_matrix ix). length v = length qv"
    and k: "1 \<le> q_topk q"
  shows "\<exists>ig. retrieve np s q = Inr (map (\<lambda>i. chunk_at ix (dot (emb_matrix ix ! i) qv) i) ig) \<and>
           length ig = min (nat (q_topk q)) (candidate_count ix q) \<and> distinct ig \<and>
           (\<forall>i\<in>set ig. i < length (emb_matrix ix) \<and>
                       (\<forall>kd. kind_filter q = Some kd \<longrightarrow> ix_kind ix ! i = kd)) \<and>
           sorted_wrt (\<lambda>a b. a \<ge> b) (map (\<lambda>i. dot (emb_matrix ix ! i) qv) ig) \<and>
           (\<forall>j<length (emb_matrix ix).
              (\<forall>kd. kind_filter q = Some kd \<longrightarrow> ix_kind ix ! j = kd) \<longrightarrow>
              (\<exists>i\<in>set ig. dot (emb_matrix ix ! j) qv \<le> dot (emb_matrix ix ! i) qv))"
proof (cases "kind_filter q")
  case None
  from search_nofilter[OF np al dims k None] obtain ig where
    s: "search np ix qv q = Inr (Some (ig, map (\<lambda>i. dot (emb_matrix ix ! i) qv) ig))" and
    r: "length ig = min (nat (q_topk q)) (length (emb_matrix ix))" "distinct ig"
       "\<forall>i\<in>set ig. i < length (emb_matrix ix)"
       "sorted_wrt (\<lambda>a b. a \<ge> b) (map (\<lambda>i. dot (emb_matrix ix ! i) qv) ig)"
       "\<forall>j<length (emb_matrix ix).
          \<exists>i\<in>set ig. dot (emb_matrix ix ! j) qv \<le> dot (emb_matrix ix ! i) qv" by blast
  have "retrieve np s q = Inr (map (\<lambda>i. chunk_at ix (dot (emb_matrix ix ! i) qv) i) ig)"
    using retrieve_of_search[OF m i e s al r(3)] by (simp add: zip_map_same)
  then show ?thesis using r None by (auto simp: candidate_count_def)
next
  case (Some kd)
  show ?thesis
  proof (cases "kd \<in> set (ix_kind ix)")
    case False
    have "retrieve np s q = Inr []"
      using search_filter_none[OF Some False, of np qv] m i e by (simp add: retrieve_def)
    moreover have "filter (\<lambda>k'. k' = kd) (ix_kind ix) = []"
      using False by (auto simp: filter_empty_conv)
    moreover have "\<forall>j<length (emb_matrix ix). ix_kind ix ! j \<noteq> kd"
      using False al by (auto simp: aligned_def Let_def)
    ultimately show ?thesis
      by (intro exI[of _ "[]"]) (simp add: candidate_count_def Some)
  next
    case True
    from search_filter[OF np al dims k Some True] obtain ig where
      s: "search np ix qv q = Inr (Some (ig, map (\<lambda>i. dot (emb_matrix ix ! i) qv) ig))" and
      r: "length ig = min (nat (q_topk q)) (length (filter (\<lambda>k'. k' = kd) (ix_kind ix)))"
         "distinct ig"
         "\<forall>i\<in>set ig. i < length (emb_matrix ix) \<and> ix_kind ix ! i = kd"
         "sorted_wrt (\<lambda>a b. a \<ge> b) (map (\<lambda>i. dot (emb_matrix ix ! i) qv) ig)"
         "\<forall>j<length (emb_matrix ix). ix_kind ix ! j = kd \<longrightarrow>
            (\<exists>i\<in>set ig. dot (emb_matrix ix ! j) qv \<le> dot (emb_matrix ix ! i) qv)" by blast
    have lt: "\<forall>i\<in>set ig. i < length (emb_matrix ix)" using r(3) by blast
    have "retrieve np s q = Inr (map (\<lambda>i. chunk_at ix (dot (emb_matrix ix ! i) qv) i) ig)"
      using retrieve_of_search[OF m i e s al lt] by (simp add: zip_map_same)
    then show ?thesis using r Some by (auto simp: candidate_count_def)
  qed
qed

subsection \<open>The concrete data\<close>





lemma renormalize_10: "renormalize [1, 0] = [1, 0]"
  by (simp add: renormalize_def linalg_norm_def)

lemma renormalize_01: "renormalize [0, 1] = [0, 1]"
  by (simp add: renormalize_def linalg_norm_def)

lemma renormalize_20: "renormalize [2, 0] = [1, 0]"
proof -
  have "sqrt 4 = 2" using real_sqrt_abs[of 2] by simp
  then show ?thesis by (simp add: renormalize_def linalg_norm_def)
qed

lemma build_index_rows0: "build_index [row_a, row_b, row_c] = Inr ix0"
  by (simp add: build_index_def row_a_def row_b_def row_c_def no_columns_def frombuffer_def
      renormalize_10 renormalize_01 renormalize_20 load_priority_def PRIORITIES_def
      vstack_def bindE_def ix0_def)

lemma load_db0: "load_index_from_db db0 = (Inr ix0, db0)"
  using build_index_rows0
  by (simp add: load_index_from_db_def select_rows_def db0_def ensure_schema_def bindE_def)

subsection \<open>C1: length and order of the result\<close>



subsection \<open>What a returned result is made of, for any numpy\<close>

lemma fancy_InrD:
  "fancy xs js = Inr ys \<Longrightarrow> ys = map (\<lambda>j. xs ! j) js \<and> (\<forall>j\<in>set js. j < length xs)"
  by (auto simp: fancy_def list_all_iff split: if_splits)

lemma matvec_InrD: "matvec m qv = Inr ss \<Longrightarrow> ss = map (\<lambda>r. dot r qv) m"
  by (auto simp: matvec_def split: if_splits)

lemma bindE_InrD: "bindE m f = Inr y \<Longrightarrow> \<exists>x. m = Inr x \<and> f x = Inr y"
  by (cases m) (auto simp: bindE_def)

lemma collect_InrD:
  "collect ms = Inr xs \<Longrightarrow> ms = map Inr xs"
proof (induction ms arbitrary: xs)
  case Nil
  then show ?case by simp
next
  case (Cons m ms)
  then show ?case by (auto split: sum.splits)
qed

lemma out_chunk_InrD:
  "out_chunk ix sc i = Inr c \<Longrightarrow>
     c = chunk_at ix sc i \<and> i < length (ix_source_path ix) \<and> i < length (ix_kind ix) \<and>
     i < length (ix_chunk_index ix) \<and> i < length (ix_priority ix) \<and> i < length (ix_text ix)"
  by (auto simp: out_chunk_def chunk_at_def split: if_splits)

lemma search_sound:
  assumes "search np ix qv q = Inr (Some (ig, ss))"
  shows "ss = map (\<lambda>i. dot (emb_matrix ix ! i) qv) ig \<and>
         (\<forall>i\<in>set ig. i < length (emb_matrix ix) \<and>
             (\<forall>kd. kind_filter q = Some kd \<longrightarrow> i < length (ix_kind ix) \<and> ix_kind ix ! i = kd))"
proof (cases "kind_filter q")
  case None
  have "bindE (matvec (emb_matrix ix) qv) (\<lambda>scores.
          bindE (select_topk np scores (q_topk q)) (\<lambda>idx_global.
          bindE (fancy scores idx_global) (\<lambda>scores_sorted.
          Inr (Some (idx_global, scores_sorted))))) = Inr (Some (ig, ss))"
    using assms by (simp add: search_def None)
  then obtain scores where mv: "matvec (emb_matrix ix) qv = Inr scores" and
    b1: "bindE (select_topk np scores (q_topk q)) (\<lambda>idx_global.
          bindE (fancy scores idx_global) (\<lambda>scores_sorted.
          Inr (Some (idx_global, scores_sorted)))) = Inr (Some (ig, ss))"
    by (blast dest: bindE_InrD)
  from b1 obtain ig' where
    b2: "bindE (fancy scores ig') (\<lambda>scores_sorted. Inr (Some (ig', scores_sorted))) =
           Inr (Some (ig, ss))"
    by (blast dest: bindE_InrD)
  from b2 obtain ss' where "fancy scores ig' = Inr ss'" and "Inr (Some (ig', ss')) = (Inr (Some (ig, ss)) :: py_exc + (nat list \<times> real list) option)"
    by (blast dest: bindE_InrD)
  then have f: "fancy scores ig = Inr ss" by simp
  have sc: "scores = map (\<lambda>r. dot r qv) (emb_matrix ix)" using mv by (rule matvec_InrD)
  from fancy_InrD[OF f] show ?thesis using None by (auto simp: sc)
next
  case (Some kd)
  define msk where "msk = map (\<lambda>k'. k' = kd) (ix_kind ix)"
  have "bindE (bool_index (emb_matrix ix) msk) (\<lambda>embs.
            bindE (matvec embs qv) (\<lambda>scores_local.
            bindE (select_topk np scores_local (q_topk q)) (\<lambda>idx_local.
            bindE (fancy (flatnonzero msk) idx_local) (\<lambda>idx_global.
            bindE (fancy scores_local idx_local) (\<lambda>scores_sorted.
            Inr (Some (idx_global, scores_sorted))))))) = Inr (Some (ig, ss))"
    using assms by (simp add: search_def Some Let_def msk_def[symmetric] split: if_splits)
  then obtain embs where bi: "bool_index (emb_matrix ix) msk = Inr embs" and
    b1: "bindE (matvec embs qv) (\<lambda>scores_local.
            bindE (select_topk np scores_local (q_topk q)) (\<lambda>idx_local.
            bindE (fancy (flatnonzero msk) idx_local) (\<lambda>idx_global.
            bindE (fancy scores_local idx_local) (\<lambda>scores_sorted.
            Inr (Some (idx_global, scores_sorted)))))) = Inr (Some (ig, ss))"
    by (blast dest: bindE_InrD)
  from b1 obtain scores where mv: "matvec embs qv = Inr scores" and
    b2: "bindE (select_topk np scores (q_topk q)) (\<lambda>idx_local.
            bindE (fancy (flatnonzero msk) idx_local) (\<lambda>idx_global.
            bindE (fancy scores idx_local) (\<lambda>scores_sorted.
            Inr (Some (idx_global, scores_sorted))))) = Inr (Some (ig, ss))"
    by (blast dest: bindE_InrD)
  from b2 obtain il where
    b3: "bindE (fancy (flatnonzero msk) il) (\<lambda>idx_global.
            bindE (fancy scores il) (\<lambda>scores_sorted.
            Inr (Some (idx_global, scores_sorted)))) = Inr (Some (ig, ss))"
    by (blast dest: bindE_InrD)
  from b3 obtain ig' where f1': "fancy (flatnonzero msk) il = Inr ig'" and
    b4: "bindE (fancy scores il) (\<lambda>scores_sorted. Inr (Some (ig', scores_sorted))) =
           Inr (Some (ig, ss))"
    by (blast dest: bindE_InrD)
  from b4 obtain ss' where f2': "fancy scores il = Inr ss'" and
    "Inr (Some (ig', ss')) = (Inr (Some (ig, ss)) :: py_exc + (nat list \<times> real list) option)"
    by (blast dest: bindE_InrD)
  then have f1: "fancy (flatnonzero msk) il = Inr ig" and f2: "fancy scores il = Inr ss"
    using f1' by simp_all
  have len: "length msk = length (emb_matrix ix)"
    using bi by (auto simp: bool_index_def split: if_splits)
  have embs: "embs = map (\<lambda>i. emb_matrix ix ! i) (flatnonzero msk)"
    using bi len by (auto simp: bool_index_def bool_index_flatnonzero)
  have sc: "scores = map (\<lambda>r. dot r qv) embs" using mv by (rule matvec_InrD)
  have ig: "ig = map (\<lambda>j. flatnonzero msk ! j) il" and
    il: "\<forall>j\<in>set il. j < length (flatnonzero msk)"
    using fancy_InrD[OF f1] by auto
  have ss: "ss = map (\<lambda>j. scores ! j) il" using fancy_InrD[OF f2] by auto
  have "ss = map (\<lambda>i. dot (emb_matrix ix ! i) qv) ig"
    using il by (simp add: ss ig sc embs)
  moreover have "\<forall>i\<in>set ig. i < length (emb_matrix ix) \<and> i < length (ix_kind ix) \<and>
                   ix_kind ix ! i = kd"
  proof
    fix i assume "i \<in> set ig"
    then obtain j where "j \<in> set il" and i: "i = flatnonzero msk ! j" by (auto simp: ig)
    then have "i \<in> set (flatnonzero msk)" using il by auto
    then have "i < length msk" "msk ! i" using flatnonzero_lt[of i msk] by auto
    then show "i < length (emb_matrix ix) \<and> i < length (ix_kind ix) \<and> ix_kind ix ! i = kd"
      using len by (auto simp: msk_def)
  qed
  ultimately show ?thesis using Some by auto
qed

lemma collect_map_InrD:
  "collect (map f xs) = Inr ys \<Longrightarrow> list_all2 (\<lambda>x y. f x = Inr y) xs ys"
proof (induction xs arbitrary: ys)
  case Nil
  then show ?case by simp
next
  case (Cons x xs)
  from Cons.prems obtain y ys' where "f x = Inr y" "collect (map f xs) = Inr ys'" "ys = y # ys'"
    by (auto split: sum.splits)
  then show ?case using Cons.IH by simp
qed

lemma retrieve_sound:
  assumes ix: "st_index s = Some ix" and r: "retrieve np s q = Inr out"
  shows "\<exists>enc qv ig. st_model s = Some enc \<and> enc (q_query q) = Some qv \<and>
           out = map (\<lambda>i. chunk_at ix (dot (emb_matrix ix ! i) qv) i) ig \<and>
           (\<forall>i\<in>set ig. i < length (emb_matrix ix) \<and> i < length (ix_source_path ix) \<and>
               i < length (ix_kind ix) \<and> i < length (ix_chunk_index ix) \<and>
               i < length (ix_priority ix) \<and> i < length (ix_text ix) \<and>
               (\<forall>kd. kind_filter q = Some kd \<longrightarrow> ix_kind ix ! i = kd))"
proof -
  obtain enc where m: "st_model s = Some enc"
    using r by (cases "st_model s") (simp_all add: retrieve_def)
  obtain qv where e: "enc (q_query q) = Some qv"
    using r ix m by (cases "enc (q_query q)") (simp_all add: retrieve_def)
  have r': "(case search np ix qv q of
               Inl e \<Rightarrow> Inl (Unhandled e)
             | Inr None \<Rightarrow> Inr []
             | Inr (Some (idx_global, scores_sorted)) \<Rightarrow>
                 (case collect (map (\<lambda>(sc, i). out_chunk ix sc i)
                                    (zip scores_sorted idx_global)) of
                    Inl e \<Rightarrow> Inl (Unhandled e)
                  | Inr out \<Rightarrow> Inr out)) = Inr out"
    using r ix m e by (simp add: retrieve_def)
  show ?thesis
  proof (cases "search np ix qv q")
    case (Inl x)
    then show ?thesis using r' by simp
  next
    case (Inr res)
    show ?thesis
    proof (cases res)
      case None
      then have "out = []" using r' Inr by simp
      then show ?thesis using m e by (intro exI[of _ enc] exI[of _ qv] exI[of _ "[]"]) simp
    next
      case (Some p)
      obtain ig ss where p: "p = (ig, ss)" by (cases p)
      have s: "search np ix qv q = Inr (Some (ig, ss))" using Inr Some p by simp
      from search_sound[OF s] have ss: "ss = map (\<lambda>i. dot (emb_matrix ix ! i) qv) ig"
        and lt: "\<forall>i\<in>set ig. i < length (emb_matrix ix) \<and>
             (\<forall>kd. kind_filter q = Some kd \<longrightarrow> i < length (ix_kind ix) \<and> ix_kind ix ! i = kd)"
        by blast+
      have c: "collect (map (\<lambda>(sc, i). out_chunk ix sc i) (zip ss ig)) = Inr out"
        using r' s by (cases "collect (map (\<lambda>(sc, i). out_chunk ix sc i) (zip ss ig))") simp_all
      have z: "zip ss ig = map (\<lambda>i. (dot (emb_matrix ix ! i) qv, i)) ig"
        unfolding ss by (induction ig) simp_all
      have c': "collect (map (\<lambda>i. out_chunk ix (dot (emb_matrix ix ! i) qv) i) ig) = Inr out"
        using c by (simp add: z comp_def)
      have l2: "list_all2 (\<lambda>i y. out_chunk ix (dot (emb_matrix ix ! i) qv) i = Inr y) ig out"
        using c' by (rule collect_map_InrD)
      have len: "length ig = length out" using l2 by (rule list_all2_lengthD)
      have each: "out_chunk ix (dot (emb_matrix ix ! (ig ! j)) qv) (ig ! j) = Inr (out ! j)"
        if "j < length ig" for j
        using l2 that by (simp add: list_all2_conv_all_nth)
      have out: "out = map (\<lambda>i. chunk_at ix (dot (emb_matrix ix ! i) qv) i) ig"
      proof (rule nth_equalityI)
        show "length out = length (map (\<lambda>i. chunk_at ix (dot (emb_matrix ix ! i) qv) i) ig)"
          using len by simp
      next
        fix j assume "j < length out"
        then have j: "j < length ig" using len by simp
        from out_chunk_InrD[OF each[OF j]]
        show "out ! j = map (\<lambda>i. chunk_at ix (dot (emb_matrix ix ! i) qv) i) ig ! j"
          using j by simp
      qed
      have bounds: "i < length (ix_source_path ix) \<and>
               i < length (ix_kind ix) \<and> i < length (ix_chunk_index ix) \<and>
               i < length (ix_priority ix) \<and> i < length (ix_text ix)" if "i \<in> set ig" for i
      proof -
        from that obtain j where j: "j < length ig" and i: "i = ig ! j"
          by (auto simp: in_set_conv_nth)
        from out_chunk_InrD[OF each[OF j]] show ?thesis by (simp add: i)
      qed
      have all: "\<forall>i\<in>set ig. i < length (emb_matrix ix) \<and> i < length (ix_source_path ix) \<and>
               i < length (ix_kind ix) \<and> i < length (ix_chunk_index ix) \<and>
               i < length (ix_priority ix) \<and> i < length (ix_text ix) \<and>
               (\<forall>kd. kind_filter q = Some kd \<longrightarrow> ix_kind ix ! i = kd)"
        using lt bounds by blast
      show ?thesis
        using m e out all by (intro exI[of _ enc] exI[of _ qv] exI[of _ ig]) simp
    qed
  qed
qed

subsection \<open>C2: the kind filter\<close>

text \<open>
  Claim C2, as stated, fails when the filter is the empty string: line 317 tests the
  truth value of \<^verbatim>\<open>q.kind\<close>, the empty string is falsy, and the request is served by the
  branch without filter. On the snapshot \<open>ix0\<close>, where no row has the empty kind, the
  request with \<open>kind = ''''\<close> returns all three rows.
\<close>

lemma retrieve_empty_kind_rows:
  "retrieve np_ref s0 \<lparr>q_query = ''cow'', q_topk = 5, q_kind = Some ''''\<rparr> =
     Inr [chunk_at ix0 1 0, chunk_at ix0 1 2, chunk_at ix0 0 1]"
  by (simp add: retrieve_def s0_def enc0_def search_def kind_filter_def ix0_def matvec_def
      dot_def select_topk_def np_argpartition_def np_ref_def slice_to_def fancy_def
      bindE_def out_chunk_def chunk_at_def Let_def upt_conv_Cons)

theorem kind_filter_empty_string_counterexample:
  "load_index_from_db db0 = (Inr ix0, db0) \<and> '''' \<notin> set (ix_kind ix0) \<and>
   retrieve np_ref s0 \<lparr>q_query = ''cow'', q_topk = 5, q_kind = Some ''''\<rparr> =
     Inr [\<lparr>rc_score = 1, rc_source_path = ''j1.md'', rc_kind = ''journal'',
           rc_chunk_index = 0, rc_priority = ''normal'', rc_text = ''cow''\<rparr>,
          \<lparr>rc_score = 1, rc_source_path = ''j1.md'', rc_kind = ''journal'',
           rc_chunk_index = 1, rc_priority = ''normal'', rc_text = ''calf''\<rparr>,
          \<lparr>rc_score = 0, rc_source_path = ''k1.md'', rc_kind = ''knowledge'',
           rc_chunk_index = 0, rc_priority = ''high'', rc_text = ''hay''\<rparr>]"
  using load_db0 retrieve_empty_kind_rows by (simp add: chunk_at_def ix0_def)

text \<open>
  Claim C2, amended. For a request whose kind filter \<open>K\<close> is a non-empty string: every
  record \<^verbatim>\<open>retrieve\<close> returns has kind \<open>K\<close> (whatever numpy does); if no row of the
  snapshot has kind \<open>K\<close> and the model embeds the query, the result is the empty list; and
  on a snapshot built by \<^verbatim>\<open>_load_index_from_db\<close>, with a query vector of the snapshot's
  dimension and \<open>topk \<ge> 1\<close>, \<^verbatim>\<open>retrieve\<close> does return a list.
\<close>

theorem retrieve_kind_filter:
  assumes "st_model s = Some enc" and "st_index s = Some ix"
    and "enc (q_query q) = Some qv"
    and "q_kind q = Some K" and "K \<noteq> []"
  shows "(\<forall>out. retrieve np s q = Inr out \<longrightarrow> list_all (\<lambda>c. rc_kind c = K) out) \<and>
         (K \<notin> set (ix_kind ix) \<longrightarrow> retrieve np s q = Inr []) \<and>
         (numpy_contract np \<and> (\<exists>db db'. load_index_from_db db = (Inr ix, db')) \<and>
          list_all (\<lambda>v. length v = length qv) (emb_matrix ix) \<and> 1 \<le> q_topk q \<longrightarrow>
            (\<exists>out. retrieve np s q = Inr out))"
proof -
  have kf: "kind_filter q = Some K" using assms(4,5) by (simp add: kind_filter_def)
  have a: "\<forall>out. retrieve np s q = Inr out \<longrightarrow> list_all (\<lambda>c. rc_kind c = K) out"
  proof (intro allI impI)
    fix out assume "retrieve np s q = Inr out"
    from retrieve_sound[OF assms(2) this] kf obtain qv' ig where
      "out = map (\<lambda>i. chunk_at ix (dot (emb_matrix ix ! i) qv') i) ig"
      "\<forall>i\<in>set ig. ix_kind ix ! i = K" by auto
    then show "list_all (\<lambda>c. rc_kind c = K) out"
      by (simp add: list_all_iff chunk_at_def)
  qed
  have b: "K \<notin> set (ix_kind ix) \<longrightarrow> retrieve np s q = Inr []"
    using search_filter_none[OF kf, of ix np qv] assms(1-3) by (simp add: retrieve_def)
  have c: "numpy_contract np \<and> (\<exists>db db'. load_index_from_db db = (Inr ix, db')) \<and>
          list_all (\<lambda>v. length v = length qv) (emb_matrix ix) \<and> 1 \<le> q_topk q \<longrightarrow>
            (\<exists>out. retrieve np s q = Inr out)"
  proof
    assume h: "numpy_contract np \<and> (\<exists>db db'. load_index_from_db db = (Inr ix, db')) \<and>
          list_all (\<lambda>v. length v = length qv) (emb_matrix ix) \<and> 1 \<le> q_topk q"
    then have al: "aligned ix" using load_index_aligned by blast
    have dims: "\<forall>v\<in>set (emb_matrix ix). length v = length qv"
      using h by (simp add: list_all_iff)
    from retrieve_rows[OF _ al assms(1,2,3) dims] h show "\<exists>out. retrieve np s q = Inr out"
      by blast
  qed
  show ?thesis using a b c by blast
qed

theorem retrieve_kind_filter_witness:
  "retrieve np_ref s0 \<lparr>q_query = ''cow'', q_topk = 5, q_kind = Some ''journal''\<rparr> =
     Inr [chunk_at ix0 1 0, chunk_at ix0 1 2] \<and>
   list_all (\<lambda>c. rc_kind c = ''journal'') [chunk_at ix0 1 0, chunk_at ix0 1 2] \<and>
   retrieve np_ref s0 \<lparr>q_query = ''cow'', q_topk = 5, q_kind = Some ''diary''\<rparr> = Inr []"
proof -
  have m: "st_model s0 = Some enc0" "st_index s0 = Some ix0" by (simp_all add: s0_def)
  have r: "retrieve np_ref s0 \<lparr>q_query = ''cow'', q_topk = 5, q_kind = Some ''journal''\<rparr> =
     Inr [chunk_at ix0 1 0, chunk_at ix0 1 2]"
    by (simp add: retrieve_def s0_def enc0_def search_def kind_filter_def ix0_def matvec_def
      dot_def select_topk_def np_argpartition_def np_ref_def slice_to_def fancy_def
      bool_index_def flatnonzero_def
      bindE_def out_chunk_def chunk_at_def Let_def upt_conv_Cons)
  have 1: "list_all (\<lambda>c. rc_kind c = ''journal'') [chunk_at ix0 1 0, chunk_at ix0 1 2]"
    using retrieve_kind_filter[OF m, of "\<lparr>q_query = ''cow'', q_topk = 5, q_kind = Some ''journal''\<rparr>"
        "[1, 0]" "''journal''" np_ref] r
    by (simp add: enc0_def)
  have 2: "retrieve np_ref s0 \<lparr>q_query = ''cow'', q_topk = 5, q_kind = Some ''diary''\<rparr> = Inr []"
    using retrieve_kind_filter[OF m, of "\<lparr>q_query = ''cow'', q_topk = 5, q_kind = Some ''diary''\<rparr>"
        "[1, 0]" "''diary''" np_ref]
    by (simp add: enc0_def ix0_def)
  show ?thesis using r 1 2 by simp
qed

subsection \<open>C9: the snapshot is aligned with the rows\<close>

text \<open>
  Claim C9. A snapshot returned by \<^verbatim>\<open>_load_index_from_db\<close> is aligned with the rows
  \<open>rs\<close> it read: the five columns and the matrix all have \<open>length rs\<close> entries, entry \<open>i\<close>
  of each column is the field of row \<open>i\<close>, and row \<open>i\<close> of the matrix is the renormalized
  vector decoded from the blob of row \<open>i\<close>. Hence every record \<^verbatim>\<open>retrieve\<close> returns from
  that snapshot takes its score and all its fields from one row \<open>i\<close>.
\<close>

theorem snapshot_aligned:
  assumes "load_index_from_db db = (Inr ix, db')"
  shows "\<exists>rs. select_rows db = (Inr rs, db') \<and>
     length (ix_source_path ix) = length rs \<and> length (ix_kind ix) = length rs \<and>
     length (ix_chunk_index ix) = length rs \<and> length (ix_priority ix) = length rs \<and>
     length (ix_text ix) = length rs \<and> length (emb_matrix ix) = length rs \<and>
     (\<forall>i<length rs.
        ix_source_path ix ! i = r_source_path (rs ! i) \<and>
        ix_kind ix ! i = r_kind (rs ! i) \<and>
        ix_chunk_index ix ! i = r_chunk_index (rs ! i) \<and>
        ix_priority ix ! i = load_priority (r_priority (rs ! i)) \<and>
        ix_text ix ! i = r_text (rs ! i) \<and>
        (\<exists>v. frombuffer (r_emb (rs ! i)) (r_dim (rs ! i)) = Inr v \<and>
             emb_matrix ix ! i = renormalize v)) \<and>
     (\<forall>np s q out. st_index s = Some ix \<and> retrieve np s q = Inr out \<longrightarrow>
        (\<exists>enc qv. st_model s = Some enc \<and> enc (q_query q) = Some qv \<and>
           (\<forall>c\<in>set out. \<exists>i<length rs.
              rc_score c = dot (emb_matrix ix ! i) qv \<and>
              rc_source_path c = r_source_path (rs ! i) \<and>
              rc_kind c = r_kind (rs ! i) \<and>
              rc_chunk_index c = r_chunk_index (rs ! i) \<and>
              rc_priority c = load_priority (r_priority (rs ! i)) \<and>
              rc_text c = r_text (rs ! i))))"
proof -
  from load_index_Inr[OF assms] obtain rs where
    sel: "select_rows db = (Inr rs, db')" and b: "build_index rs = Inr ix" by blast
  note bi = build_index_Inr[OF b]
  have cols: "ix_source_path ix = map r_source_path rs" "ix_kind ix = map r_kind rs"
    "ix_chunk_index ix = map r_chunk_index rs"
    "ix_priority ix = map (\<lambda>r. load_priority (r_priority r)) rs"
    "ix_text ix = map r_text rs" "emb_matrix ix = map row_vec rs"
    using bi by blast+
  have dec: "\<forall>r\<in>set rs. \<exists>v. frombuffer (r_emb r) (r_dim r) = Inr v" using bi by blast
  have rowi: "\<forall>i<length rs.
        ix_source_path ix ! i = r_source_path (rs ! i) \<and>
        ix_kind ix ! i = r_kind (rs ! i) \<and>
        ix_chunk_index ix ! i = r_chunk_index (rs ! i) \<and>
        ix_priority ix ! i = load_priority (r_priority (rs ! i)) \<and>
        ix_text ix ! i = r_text (rs ! i) \<and>
        (\<exists>v. frombuffer (r_emb (rs ! i)) (r_dim (rs ! i)) = Inr v \<and>
             emb_matrix ix ! i = renormalize v)"
  proof (intro allI impI)
    fix i assume i: "i < length rs"
    then obtain v where v: "frombuffer (r_emb (rs ! i)) (r_dim (rs ! i)) = Inr v"
      using dec by (meson nth_mem)
    then have "row_vec (rs ! i) = renormalize v" by (simp add: row_vec_def)
    then show "ix_source_path ix ! i = r_source_path (rs ! i) \<and>
        ix_kind ix ! i = r_kind (rs ! i) \<and>
        ix_chunk_index ix ! i = r_chunk_index (rs ! i) \<and>
        ix_priority ix ! i = load_priority (r_priority (rs ! i)) \<and>
        ix_text ix ! i = r_text (rs ! i) \<and>
        (\<exists>v. frombuffer (r_emb (rs ! i)) (r_dim (rs ! i)) = Inr v \<and>
             emb_matrix ix ! i = renormalize v)"
      using i v by (simp add: cols)
  qed
  have ret: "\<forall>np s q out. st_index s = Some ix \<and> retrieve np s q = Inr out \<longrightarrow>
        (\<exists>enc qv. st_model s = Some enc \<and> enc (q_query q) = Some qv \<and>
           (\<forall>c\<in>set out. \<exists>i<length rs.
              rc_score c = dot (emb_matrix ix ! i) qv \<and>
              rc_source_path c = r_source_path (rs ! i) \<and>
              rc_kind c = r_kind (rs ! i) \<and>
              rc_chunk_index c = r_chunk_index (rs ! i) \<and>
              rc_priority c = load_priority (r_priority (rs ! i)) \<and>
              rc_text c = r_text (rs ! i)))"
  proof (intro allI impI)
    fix np s q out assume h: "st_index s = Some ix \<and> retrieve np s q = Inr out"
    from retrieve_sound[of s ix np q out] h obtain enc qv ig where
      m: "st_model s = Some enc" and e: "enc (q_query q) = Some qv" and
      out: "out = map (\<lambda>i. chunk_at ix (dot (emb_matrix ix ! i) qv) i) ig" and
      lt: "\<forall>i\<in>set ig. i < length (emb_matrix ix)" by blast
    have "\<forall>c\<in>set out. \<exists>i<length rs.
              rc_score c = dot (emb_matrix ix ! i) qv \<and>
              rc_source_path c = r_source_path (rs ! i) \<and>
              rc_kind c = r_kind (rs ! i) \<and>
              rc_chunk_index c = r_chunk_index (rs ! i) \<and>
              rc_priority c = load_priority (r_priority (rs ! i)) \<and>
              rc_text c = r_text (rs ! i)"
    proof
      fix c assume "c \<in> set out"
      then obtain i where i: "i \<in> set ig" and c: "c = chunk_at ix (dot (emb_matrix ix ! i) qv) i"
        by (auto simp: out)
      have il: "i < length rs" using lt i by (simp add: cols)
      show "\<exists>i<length rs.
              rc_score c = dot (emb_matrix ix ! i) qv \<and>
              rc_source_path c = r_source_path (rs ! i) \<and>
              rc_kind c = r_kind (rs ! i) \<and>
              rc_chunk_index c = r_chunk_index (rs ! i) \<and>
              rc_priority c = load_priority (r_priority (rs ! i)) \<and>
              rc_text c = r_text (rs ! i)"
        using il rowi by (intro exI[of _ i]) (simp add: c chunk_at_def)
    qed
    then show "\<exists>enc qv. st_model s = Some enc \<and> enc (q_query q) = Some qv \<and>
           (\<forall>c\<in>set out. \<exists>i<length rs.
              rc_score c = dot (emb_matrix ix ! i) qv \<and>
              rc_source_path c = r_source_path (rs ! i) \<and>
              rc_kind c = r_kind (rs ! i) \<and>
              rc_chunk_index c = r_chunk_index (rs ! i) \<and>
              rc_priority c = load_priority (r_priority (rs ! i)) \<and>
              rc_text c = r_text (rs ! i))"
      using m e by blast
  qed
  show ?thesis using sel rowi ret by (intro exI[of _ rs]) (simp add: cols)
qed


lemma select_rows_db0: "select_rows db0 = (Inr [row_a, row_b, row_c], db0)"
  by (simp add: select_rows_def db0_def ensure_schema_def)

lemma retrieve_journal_rows:
  "retrieve np_ref s0 \<lparr>q_query = ''cow'', q_topk = 5, q_kind = Some ''journal''\<rparr> =
     Inr [chunk_at ix0 1 0, chunk_at ix0 1 2]"
  by (simp add: retrieve_def s0_def enc0_def search_def kind_filter_def ix0_def matvec_def
      dot_def select_topk_def np_argpartition_def np_ref_def slice_to_def fancy_def
      bool_index_def flatnonzero_def
      bindE_def out_chunk_def chunk_at_def Let_def upt_conv_Cons)

theorem snapshot_aligned_witness:
  "load_index_from_db db0 = (Inr ix0, db0) \<and>
   select_rows db0 = (Inr [row_a, row_b, row_c], db0) \<and>
   length (ix_source_path ix0) = 3 \<and> length (emb_matrix ix0) = 3 \<and>
   ix_source_path ix0 ! 2 = r_source_path row_c \<and> ix_text ix0 ! 2 = r_text row_c \<and>
   emb_matrix ix0 ! 2 = renormalize [2, 0] \<and>
   retrieve np_ref s0 \<lparr>q_query = ''cow'', q_topk = 5, q_kind = Some ''journal''\<rparr> =
     Inr [chunk_at ix0 1 0, chunk_at ix0 1 2] \<and>
   (\<exists>i<3. rc_score (chunk_at ix0 1 2) = dot (emb_matrix ix0 ! i) [1, 0] \<and>
           rc_text (chunk_at ix0 1 2) = r_text ([row_a, row_b, row_c] ! i) \<and>
           rc_chunk_index (chunk_at ix0 1 2) = r_chunk_index ([row_a, row_b, row_c] ! i))"
proof -
  let ?q = "\<lparr>q_query = ''cow'', q_topk = 5, q_kind = Some ''journal''\<rparr>"
  let ?rs = "[row_a, row_b, row_c]"
  from snapshot_aligned[OF load_db0] obtain rs where
    sel: "select_rows db0 = (Inr rs, db0)" and
    len: "length (ix_source_path ix0) = length rs" "length (emb_matrix ix0) = length rs" and
    rowi: "\<forall>i<length rs.
        ix_source_path ix0 ! i = r_source_path (rs ! i) \<and>
        ix_kind ix0 ! i = r_kind (rs ! i) \<and>
        ix_chunk_index ix0 ! i = r_chunk_index (rs ! i) \<and>
        ix_priority ix0 ! i = load_priority (r_priority (rs ! i)) \<and>
        ix_text ix0 ! i = r_text (rs ! i) \<and>
        (\<exists>v. frombuffer (r_emb (rs ! i)) (r_dim (rs ! i)) = Inr v \<and>
             emb_matrix ix0 ! i = renormalize v)" and
    ret: "\<forall>np s q out. st_index s = Some ix0 \<and> retrieve np s q = Inr out \<longrightarrow>
        (\<exists>enc qv. st_model s = Some enc \<and> enc (q_query q) = Some qv \<and>
           (\<forall>c\<in>set out. \<exists>i<length rs.
              rc_score c = dot (emb_matrix ix0 ! i) qv \<and>
              rc_source_path c = r_source_path (rs ! i) \<and>
              rc_kind c = r_kind (rs ! i) \<and>
              rc_chunk_index c = r_chunk_index (rs ! i) \<and>
              rc_priority c = load_priority (r_priority (rs ! i)) \<and>
              rc_text c = r_text (rs ! i)))"
    by (elim exE conjE)
  have rs: "rs = ?rs" using sel select_rows_db0 by simp
  have l3: "length rs = 3" by (simp add: rs)
  have r2: "ix_source_path ix0 ! 2 = r_source_path row_c \<and> ix_text ix0 ! 2 = r_text row_c \<and>
    emb_matrix ix0 ! 2 = renormalize [2, 0]"
    using rowi[rule_format, of 2] by (simp add: rs row_c_def frombuffer_def)
  have "st_index s0 = Some ix0 \<and> retrieve np_ref s0 ?q = Inr [chunk_at ix0 1 0, chunk_at ix0 1 2]"
    using retrieve_journal_rows by (simp add: s0_def)
  from ret[rule_format, OF this] obtain enc qv where
    "st_model s0 = Some enc" "enc (q_query ?q) = Some qv" and
    c: "\<forall>c\<in>set [chunk_at ix0 1 0, chunk_at ix0 1 2]. \<exists>i<length rs.
              rc_score c = dot (emb_matrix ix0 ! i) qv \<and>
              rc_source_path c = r_source_path (rs ! i) \<and>
              rc_kind c = r_kind (rs ! i) \<and>
              rc_chunk_index c = r_chunk_index (rs ! i) \<and>
              rc_priority c = load_priority (r_priority (rs ! i)) \<and>
              rc_text c = r_text (rs ! i)" by (elim exE conjE)
  then have qv: "qv = [1, 0]" by (simp add: s0_def enc0_def)
  have ex: "\<exists>i<3. rc_score (chunk_at ix0 1 2) = dot (emb_matrix ix0 ! i) [1, 0] \<and>
           rc_text (chunk_at ix0 1 2) = r_text (?rs ! i) \<and>
           rc_chunk_index (chunk_at ix0 1 2) = r_chunk_index (?rs ! i)"
  proof -
    have "chunk_at ix0 1 2 \<in> set [chunk_at ix0 1 0, chunk_at ix0 1 2]" by simp
    from c[rule_format, OF this] obtain i where "i < length rs"
      "rc_score (chunk_at ix0 1 2) = dot (emb_matrix ix0 ! i) qv"
      "rc_text (chunk_at ix0 1 2) = r_text (rs ! i)"
      "rc_chunk_index (chunk_at ix0 1 2) = r_chunk_index (rs ! i)" by blast
    then show ?thesis unfolding qv rs by (intro exI[of _ i]) simp
  qed
  show ?thesis
    using load_db0 select_rows_db0 len l3 r2 retrieve_journal_rows ex by simp
qed

subsection \<open>C10: priorities of the snapshot\<close>

text \<open>
  Claim C10. Every priority a snapshot built by \<^verbatim>\<open>_load_index_from_db\<close> holds is
  \<open>normal\<close> or \<open>high\<close>: a row whose priority is NULL or a string outside
  \<open>PRIORITIES\<close> is loaded with \<open>normal\<close>, a row whose priority is in \<open>PRIORITIES\<close> keeps
  it. Hence every priority \<^verbatim>\<open>retrieve\<close> returns from that snapshot is in \<open>PRIORITIES\<close>.
\<close>

lemma load_priority_in: "load_priority pr \<in> PRIORITIES"
  by (simp add: load_priority_def PRIORITIES_def Let_def split: option.splits)

theorem snapshot_priorities:
  assumes "load_index_from_db db = (Inr ix, db')"
  shows "list_all (\<lambda>p. p \<in> PRIORITIES) (ix_priority ix) \<and>
     (\<exists>rs. select_rows db = (Inr rs, db') \<and> length (ix_priority ix) = length rs \<and>
        (\<forall>i<length rs.
           (case r_priority (rs ! i) of
              None \<Rightarrow> ix_priority ix ! i = ''normal''
            | Some p \<Rightarrow> ix_priority ix ! i = (if p \<in> PRIORITIES then p else ''normal'')))) \<and>
     (\<forall>np s q out. st_index s = Some ix \<and> retrieve np s q = Inr out \<longrightarrow>
        list_all (\<lambda>c. rc_priority c \<in> PRIORITIES) out)"
proof -
  from load_index_Inr[OF assms] obtain rs where
    sel: "select_rows db = (Inr rs, db')" and b: "build_index rs = Inr ix" by blast
  have pr: "ix_priority ix = map (\<lambda>r. load_priority (r_priority r)) rs"
    using build_index_Inr[OF b] by blast
  have a: "list_all (\<lambda>p. p \<in> PRIORITIES) (ix_priority ix)"
    by (simp add: pr list_all_iff load_priority_in)
  have c: "\<forall>i<length rs.
           (case r_priority (rs ! i) of
              None \<Rightarrow> ix_priority ix ! i = ''normal''
            | Some p \<Rightarrow> ix_priority ix ! i = (if p \<in> PRIORITIES then p else ''normal''))"
    by (simp add: pr load_priority_def split: option.splits)
  have d: "\<forall>np s q out. st_index s = Some ix \<and> retrieve np s q = Inr out \<longrightarrow>
        list_all (\<lambda>c. rc_priority c \<in> PRIORITIES) out"
  proof (intro allI impI)
    fix np s q out assume h: "st_index s = Some ix \<and> retrieve np s q = Inr out"
    from retrieve_sound[of s ix np q out] h obtain qv ig where
      out: "out = map (\<lambda>i. chunk_at ix (dot (emb_matrix ix ! i) qv) i) ig" and
      lt: "\<forall>i\<in>set ig. i < length (ix_priority ix)" by blast
    have "\<forall>i\<in>set ig. ix_priority ix ! i \<in> PRIORITIES"
      using lt a by (simp add: list_all_length)
    then show "list_all (\<lambda>c. rc_priority c \<in> PRIORITIES) out"
      by (simp add: out list_all_iff chunk_at_def)
  qed
  show ?thesis using a sel c d by (auto simp: pr)
qed

theorem snapshot_priorities_witness:
  "load_index_from_db db0 = (Inr ix0, db0) \<and> r_priority row_c = None \<and>
   ix_priority ix0 = [''normal'', ''high'', ''normal''] \<and>
   list_all (\<lambda>p. p \<in> PRIORITIES) (ix_priority ix0) \<and>
   retrieve np_ref s0 \<lparr>q_query = ''cow'', q_topk = 5, q_kind = Some ''journal''\<rparr> =
     Inr [chunk_at ix0 1 0, chunk_at ix0 1 2] \<and>
   list_all (\<lambda>c. rc_priority c \<in> PRIORITIES) [chunk_at ix0 1 0, chunk_at ix0 1 2]"
proof -
  note t = snapshot_priorities[OF load_db0]
  have a: "list_all (\<lambda>p. p \<in> PRIORITIES) (ix_priority ix0)" using t by blast
  have "st_index s0 = Some ix0 \<and>
    retrieve np_ref s0 \<lparr>q_query = ''cow'', q_topk = 5, q_kind = Some ''journal''\<rparr> =
      Inr [chunk_at ix0 1 0, chunk_at ix0 1 2]"
    using retrieve_journal_rows by (simp add: s0_def)
  then have b: "list_all (\<lambda>c. rc_priority c \<in> PRIORITIES) [chunk_at ix0 1 0, chunk_at ix0 1 2]"
    using t by blast
  show ?thesis using load_db0 a b retrieve_journal_rows by (simp add: row_c_def ix0_def)
qed

subsection \<open>C8: repeated queries and equal scores\<close>






subsection \<open>The schema check and the upsert\<close>

lemma ensure_schema_InrD:
  "ensure_schema t = Inr t1 \<Longrightarrow>
     has_ux t1 \<and> has_priority t1 \<and> map r_id (rows t1) = map r_id (rows t) \<and>
     map nkey (rows t1) = map nkey (rows t) \<and> map r_dim (rows t1) = map r_dim (rows t) \<and>
     map r_emb (rows t1) = map r_emb (rows t)"
  by (auto simp: ensure_schema_def Let_def nkey_def split: if_splits)

lemma ensure_schema_done: "has_ux t \<Longrightarrow> has_priority t \<Longrightarrow> ensure_schema t = Inr t"
  by (simp add: ensure_schema_def)

lemma nkey_new_row: "nkey (new_row env req pr v) = req_key req"
  by (simp add: nkey_def new_row_def req_key_def)

lemma nkey_overwrite: "nkey (overwrite new r) = nkey r"
  by (simp add: nkey_def overwrite_def)

lemma r_id_overwrite: "r_id (overwrite new r) = r_id r"
  by (simp add: overwrite_def)

lemma upsert_conflict:
  "has_ux t \<Longrightarrow> has_priority t \<Longrightarrow> (\<exists>r\<in>set (rows t). nkey r = nkey new) \<Longrightarrow>
     upsert t new =
       Inr (t\<lparr>rows := map (\<lambda>r. if nkey r = nkey new then overwrite new r else r) (rows t)\<rparr>)"
  by (auto simp: upsert_def list_ex_iff overwrite_def)

lemma upsert_fresh:
  "has_ux t \<Longrightarrow> has_priority t \<Longrightarrow> \<not> (\<exists>r\<in>set (rows t). nkey r = nkey new) \<Longrightarrow>
     \<not> (\<exists>r\<in>set (rows t). r_id r = r_id new) \<Longrightarrow> upsert t new = Inr (t\<lparr>rows := rows t @ [new]\<rparr>)"
  by (auto simp: upsert_def list_ex_iff)

lemma upsert_InrD:
  assumes "upsert t new = Inr t2"
  shows "has_ux t2 \<and> has_priority t2 \<and>
     (if (\<exists>r\<in>set (rows t). nkey r = nkey new)
      then rows t2 = map (\<lambda>r. if nkey r = nkey new then overwrite new r else r) (rows t)
      else rows t2 = rows t @ [new])"
proof -
  have f: "has_ux t" "has_priority t" using assms by (auto simp: upsert_def split: if_splits)
  show ?thesis
  proof (cases "\<exists>r\<in>set (rows t). nkey r = nkey new")
    case True
    then show ?thesis using assms upsert_conflict[OF f True] f by auto
  next
    case False
    then have "\<not> list_ex (\<lambda>r. nkey r = nkey new) (rows t)" by (simp add: list_ex_iff)
    then show ?thesis using assms f False by (auto simp: upsert_def split: if_splits)
  qed
qed

lemma find_overwrite:
  "find (\<lambda>r. nkey r = k) (map (\<lambda>r. if nkey r = k' then overwrite new r else r) rs) =
     map_option (\<lambda>r. if nkey r = k' then overwrite new r else r) (find (\<lambda>r. nkey r = k) rs)"
  by (induction rs) (auto simp: nkey_overwrite)

lemma find_key_Some:
  "\<exists>r\<in>set rs. nkey r = k \<Longrightarrow> \<exists>r. find (\<lambda>r. nkey r = k) rs = Some r \<and> r \<in> set rs \<and> nkey r = k"
  by (induction rs) auto

lemma persist_def2:
  "persist env db req pr v =
     (case db of
        Missing \<Rightarrow> (Inl (sqlite_http OperationalError), NoTable)
      | NoTable \<Rightarrow> (Inl (sqlite_http OperationalError), NoTable)
      | Table t \<Rightarrow>
          (case ensure_schema t of
             Inl e \<Rightarrow> (Inl (sqlite_http e), Table t)
           | Inr t1 \<Rightarrow>
               (case upsert t1 (new_row env req pr v) of
                  Inl e \<Rightarrow> (Inl (sqlite_http e), Table t1)
                | Inr t2 \<Rightarrow>
                    (case find (\<lambda>r. nkey r = req_key req) (rows t2) of
                       None \<Rightarrow> (Inl (HTTPException 500 Row_not_found), Table t2)
                     | Some r \<Rightarrow> (Inr (r_id r, r_dim r), Table t2)))))"
  unfolding persist_def new_row_def req_key_def by (rule refl)

lemma persist_InrD:
  assumes "persist env db req pr v = (Inr (sid, sdim), db1)"
  shows "\<exists>t t1 t2 r. db = Table t \<and> ensure_schema t = Inr t1 \<and>
           upsert t1 (new_row env req pr v) = Inr t2 \<and> db1 = Table t2 \<and>
           find (\<lambda>r. nkey r = req_key req) (rows t2) = Some r \<and> sid = r_id r \<and> sdim = r_dim r"
  using assms unfolding persist_def2
  by (auto split: db_file.splits sum.splits option.splits)

lemma select_rows_done:
  "has_ux t \<Longrightarrow> has_priority t \<Longrightarrow> select_rows (Table t) = (Inr (rows t), Table t)"
  by (simp add: select_rows_def ensure_schema_done)

lemma load_index_done:
  "has_ux t \<Longrightarrow> has_priority t \<Longrightarrow>
     load_index_from_db (Table t) = (build_index (rows t), Table t)"
  by (simp add: load_index_from_db_def select_rows_done bindE_def)

lemma store_def2:
  "store env s db req =
     (if \<not> ready s then (Inl (HTTPException 503 Service_not_ready), s, db)
      else if store_priority req \<notin> PRIORITIES then
        (Inl (HTTPException 422 (Invalid_priority (sq_priority req))), s, db)
      else
        (case the (st_model s) (sq_text req) of
           None \<Rightarrow> (Inl (HTTPException 500 Embedding_failed), s, db)
         | Some v \<Rightarrow>
             (case persist env db req (store_priority req) v of
                (Inl e, db1) \<Rightarrow> (Inl e, s, db1)
              | (Inr (stored_id, stored_dim), db1) \<Rightarrow>
                  (case load_index_from_db db1 of
                     (Inl e, db2) \<Rightarrow>
                       (Inl (HTTPException 500 (Stored_but_reload_failed e)), s, db2)
                   | (Inr ix, db2) \<Rightarrow>
                       (Inr \<lparr>sp_ok = True, sp_id = stored_id, sp_dim = stored_dim\<rparr>,
                        s\<lparr>st_index := Some ix, loaded_at := Some (now env)\<rparr>, db2)))))"
  by (auto simp: store_def ready_def store_priority_def Let_def split: option.splits)

subsection \<open>What \<^verbatim>\<open>store\<close> persists\<close>

lemma find_SomeD: "find P xs = Some x \<Longrightarrow> x \<in> set xs \<and> P x"
  by (induction xs) (auto split: if_splits)

lemma find_snoc: "find P (xs @ [x]) = (case find P xs of None \<Rightarrow> (if P x then Some x else None) | Some y \<Rightarrow> Some y)"
  by (induction xs) auto

lemma persist_row:
  assumes "persist env db req pr v = (Inr (sid, sdim), db1)"
  shows "\<exists>t2 r. db1 = Table t2 \<and> has_ux t2 \<and> has_priority t2 \<and>
           find (\<lambda>r. nkey r = req_key req) (rows t2) = Some r \<and> r \<in> set (rows t2) \<and>
           r_id r = sid \<and> r_dim r = sdim \<and> nkey r = req_key req \<and>
           r_priority r = Some pr \<and> r_text r = sq_text req \<and> r_emb r = v \<and>
           r_dim r = int (length v) \<and> r_created_at r = created_at env"
proof -
  let ?new = "new_row env req pr v"
  from persist_InrD[OF assms] obtain t t1 t2 r where
    db: "db = Table t" and es: "ensure_schema t = Inr t1" and
    up: "upsert t1 ?new = Inr t2" and db1: "db1 = Table t2" and
    f: "find (\<lambda>r. nkey r = req_key req) (rows t2) = Some r" and
    ids: "sid = r_id r" "sdim = r_dim r" by blast
  note u = upsert_InrD[OF up]
  have mem: "r \<in> set (rows t2)" and key: "nkey r = req_key req" using find_SomeD[OF f] by auto
  have fields: "r_priority r = Some pr \<and> r_text r = sq_text req \<and> r_emb r = v \<and>
           r_dim r = int (length v) \<and> r_created_at r = created_at env"
  proof (cases "\<exists>r\<in>set (rows t1). nkey r = nkey ?new")
    case True
    then have rows2: "rows t2 = map (\<lambda>r. if nkey r = nkey ?new then overwrite ?new r else r) (rows t1)"
      using u by simp
    from f obtain r0 where "find (\<lambda>r. nkey r = req_key req) (rows t1) = Some r0"
      and r: "r = (if nkey r0 = nkey ?new then overwrite ?new r0 else r0)"
      by (auto simp: rows2 find_overwrite)
    then have "nkey r0 = req_key req" using find_SomeD by fastforce
    then have "r = overwrite ?new r0" using r by (simp add: nkey_new_row)
    then show ?thesis by (simp add: overwrite_def new_row_def)
  next
    case False
    then have rows2: "rows t2 = rows t1 @ [?new]" using u by simp
    have "find (\<lambda>r. nkey r = req_key req) (rows t1) = None"
      using False by (auto simp: find_None_iff nkey_new_row)
    then have "r = ?new" using f by (simp add: rows2 find_snoc nkey_new_row)
    then show ?thesis by (simp add: new_row_def)
  qed
  show ?thesis using db1 u f mem key fields ids by blast
qed

lemma persist_then_load:
  assumes "persist env db req pr v = (Inr (sid, sdim), db1)"
  shows "snd (load_index_from_db db1) = db1"
  using persist_row[OF assms] by (auto simp: load_index_done)

subsection \<open>C5: a failed rebuild keeps the previous snapshot\<close>

text \<open>
  Claim C5. When the rebuild fails with an exception \<open>e\<close>:
  \<^item> \<^verbatim>\<open>reload_index\<close>, on a service whose model is loaded, returns the error 500
    \<open>Reload_failed e\<close> and leaves the state as it was;
  \<^item> \<^verbatim>\<open>store\<close> returns the error 500 \<open>Stored_but_reload_failed e\<close> exactly when the service
    was ready, the priority valid, the text embedded, the \<^verbatim>\<open>try\<close> block of the upsert
    succeeded and the rebuild that follows failed with \<open>e\<close>; the state is then the one
    before the call;
  \<^item> when the \<^verbatim>\<open>try\<close> block succeeds the table holds the row with the request's key and
    the written values, and the rebuild does not change the table.
\<close>

theorem rebuild_failure_keeps_snapshot:
  "(st_model s \<noteq> None \<and> load_index_from_db db = (Inl e, db1) \<longrightarrow>
      reload_index env s db = (Inl (HTTPException 500 (Reload_failed e)), s, db1)) \<and>
   (store env s db req = (Inl (HTTPException 500 (Stored_but_reload_failed e)), s', db') \<longleftrightarrow>
      s' = s \<and> ready s \<and> store_priority req \<in> PRIORITIES \<and>
      (\<exists>enc v sid sdim db2. st_model s = Some enc \<and> enc (sq_text req) = Some v \<and>
         persist env db req (store_priority req) v = (Inr (sid, sdim), db2) \<and>
         load_index_from_db db2 = (Inl e, db'))) \<and>
   (persist env db req pr v = (Inr (sid, sdim), db3) \<longrightarrow>
      snd (load_index_from_db db3) = db3 \<and>
      (\<exists>t r. db3 = Table t \<and> r \<in> set (rows t) \<and> r_id r = sid \<and> nkey r = req_key req \<and>
         r_priority r = Some pr \<and> r_text r = sq_text req \<and> r_emb r = v \<and>
         r_dim r = int (length v) \<and> r_created_at r = created_at env))"
proof (intro conjI)
  show "st_model s \<noteq> None \<and> load_index_from_db db = (Inl e, db1) \<longrightarrow>
      reload_index env s db = (Inl (HTTPException 500 (Reload_failed e)), s, db1)"
    by (auto simp: reload_index_def)
next
  show "store env s db req = (Inl (HTTPException 500 (Stored_but_reload_failed e)), s', db') \<longleftrightarrow>
      s' = s \<and> ready s \<and> store_priority req \<in> PRIORITIES \<and>
      (\<exists>enc v sid sdim db2. st_model s = Some enc \<and> enc (sq_text req) = Some v \<and>
         persist env db req (store_priority req) v = (Inr (sid, sdim), db2) \<and>
         load_index_from_db db2 = (Inl e, db'))"
  proof
    assume a: "store env s db req = (Inl (HTTPException 500 (Stored_but_reload_failed e)), s', db')"
    have rd: "ready s" using a by (auto simp: store_def2 split: if_splits)
    have pr: "store_priority req \<in> PRIORITIES" using a rd by (auto simp: store_def2 split: if_splits)
    from rd obtain enc where m: "st_model s = Some enc" by (auto simp: ready_def)
    from a rd pr m obtain v where e: "enc (sq_text req) = Some v"
      by (cases "enc (sq_text req)") (auto simp: store_def2)
    obtain res db2 where p: "persist env db req (store_priority req) v = (res, db2)"
      by (cases "persist env db req (store_priority req) v")
    have "\<exists>sid sdim. res = Inr (sid, sdim)"
      using a rd pr m e p
      by (cases res) (auto simp: store_def2 sqlite_http_def persist_def2
          split: db_file.splits sum.splits option.splits if_splits)
    then obtain sid sdim where res: "res = Inr (sid, sdim)" by blast
    obtain lr db4 where l: "load_index_from_db db2 = (lr, db4)"
      by (cases "load_index_from_db db2")
    have "lr = Inl e \<and> db4 = db' \<and> s' = s"
      using a rd pr m e p res l by (cases lr) (auto simp: store_def2)
    then show "s' = s \<and> ready s \<and> store_priority req \<in> PRIORITIES \<and>
      (\<exists>enc v sid sdim db2. st_model s = Some enc \<and> enc (sq_text req) = Some v \<and>
         persist env db req (store_priority req) v = (Inr (sid, sdim), db2) \<and>
         load_index_from_db db2 = (Inl e, db'))"
      using rd pr m e p res l by blast
  next
    assume "s' = s \<and> ready s \<and> store_priority req \<in> PRIORITIES \<and>
      (\<exists>enc v sid sdim db2. st_model s = Some enc \<and> enc (sq_text req) = Some v \<and>
         persist env db req (store_priority req) v = (Inr (sid, sdim), db2) \<and>
         load_index_from_db db2 = (Inl e, db'))"
    then show "store env s db req = (Inl (HTTPException 500 (Stored_but_reload_failed e)), s', db')"
      by (auto simp: store_def2)
  qed
next
  show "persist env db req pr v = (Inr (sid, sdim), db3) \<longrightarrow>
      snd (load_index_from_db db3) = db3 \<and>
      (\<exists>t r. db3 = Table t \<and> r \<in> set (rows t) \<and> r_id r = sid \<and> nkey r = req_key req \<and>
         r_priority r = Some pr \<and> r_text r = sq_text req \<and> r_emb r = v \<and>
         r_dim r = int (length v) \<and> r_created_at r = created_at env)"
  proof
    assume p: "persist env db req pr v = (Inr (sid, sdim), db3)"
    from persist_row[OF p] persist_then_load[OF p]
    show "snd (load_index_from_db db3) = db3 \<and>
      (\<exists>t r. db3 = Table t \<and> r \<in> set (rows t) \<and> r_id r = sid \<and> nkey r = req_key req \<and>
         r_priority r = Some pr \<and> r_text r = sq_text req \<and> r_emb r = v \<and>
         r_dim r = int (length v) \<and> r_created_at r = created_at env)"
      by blast
  qed
qed


lemma store_priority_req0: "store_priority req0 = ''high''"
proof -
  have "char_of (104 :: nat) = CHR ''h''" by code_simp
  then show ?thesis
    by (simp add: store_priority_def req0_def strip_def lower_def py_isspace_def lower_char_def)
qed

lemma persist_db0:
  "persist env0 db0 req0 ''high'' [0, 0, 1] = (Inr (''n1'', 3), db0_stored)"
  by (simp add: persist_def2 db0_def db0_stored_def ensure_schema_def upsert_def new_row_def
      req_key_def nkey_def env0_def req0_def row_a_def row_b_def row_c_def)

lemma load_db_mixed: "load_index_from_db db_mixed = (Inl (RuntimeError_dim 3 2), db_mixed)"
  by (simp add: load_index_from_db_def select_rows_def db_mixed_def ensure_schema_def
      build_index_def bindE_def row_a_def row_d_def frombuffer_def no_columns_def)

lemma load_db0_stored:
  "load_index_from_db db0_stored = (Inl (RuntimeError_dim 3 2), db0_stored)"
  by (simp add: load_index_from_db_def select_rows_def db0_stored_def ensure_schema_def
      build_index_def bindE_def row_a_def row_b_def row_c_def new_row_def frombuffer_def
      no_columns_def)

theorem rebuild_failure_keeps_snapshot_witness:
  "load_index_from_db db_mixed = (Inl (RuntimeError_dim 3 2), db_mixed) \<and>
   reload_index env0 s0 db_mixed =
     (Inl (HTTPException 500 (Reload_failed (RuntimeError_dim 3 2))), s0, db_mixed) \<and>
   ready s_wide \<and>
   persist env0 db0 req0 ''high'' [0, 0, 1] = (Inr (''n1'', 3), db0_stored) \<and>
   load_index_from_db db0_stored = (Inl (RuntimeError_dim 3 2), db0_stored) \<and>
   store env0 s_wide db0 req0 =
     (Inl (HTTPException 500 (Stored_but_reload_failed (RuntimeError_dim 3 2))), s_wide, db0_stored)"
proof -
  note t1 = rebuild_failure_keeps_snapshot[where s = s0 and db = db_mixed and
      e = "RuntimeError_dim 3 2" and ?db1.0 = db_mixed and env = env0]
  note t = rebuild_failure_keeps_snapshot[where s = s_wide and db = db0 and
      e = "RuntimeError_dim 3 2" and env = env0 and req = req0 and s' = s_wide and
      db' = db0_stored]
  have m: "st_model s0 \<noteq> None" by (simp add: s0_def)
  have r: "reload_index env0 s0 db_mixed =
     (Inl (HTTPException 500 (Reload_failed (RuntimeError_dim 3 2))), s0, db_mixed)"
    using t1[THEN conjunct1] m load_db_mixed by simp
  have rd: "ready s_wide" by (simp add: ready_def s_wide_def)
  have pr: "store_priority req0 \<in> PRIORITIES" by (simp add: store_priority_req0 PRIORITIES_def)
  have ex: "\<exists>enc v sid sdim db2. st_model s_wide = Some enc \<and> enc (sq_text req0) = Some v \<and>
         persist env0 db0 req0 (store_priority req0) v = (Inr (sid, sdim), db2) \<and>
         load_index_from_db db2 = (Inl (RuntimeError_dim 3 2), db0_stored)"
    using persist_db0 load_db0_stored
    by (intro exI[of _ enc3] exI[of _ "[0, 0, 1]"] exI[of _ "''n1''"] exI[of _ 3]
        exI[of _ db0_stored]) (simp add: s_wide_def enc3_def store_priority_req0)
  have st: "store env0 s_wide db0 req0 =
     (Inl (HTTPException 500 (Stored_but_reload_failed (RuntimeError_dim 3 2))), s_wide, db0_stored)"
    by (rule t[THEN conjunct2, THEN conjunct1, THEN iffD2]) (use rd pr ex in simp)
  show ?thesis using load_db_mixed r rd persist_db0 load_db0_stored st by simp
qed

subsection \<open>C3: a second store of the same natural key keeps the id\<close>

lemma store_InrD:
  assumes a: "store env s db req = (Inr resp, s', db')"
  shows "\<exists>enc v dbp ix. st_model s = Some enc \<and> enc (sq_text req) = Some v \<and>
           store_priority req \<in> PRIORITIES \<and>
           persist env db req (store_priority req) v = (Inr (sp_id resp, sp_dim resp), dbp) \<and>
           load_index_from_db dbp = (Inr ix, db') \<and>
           s' = s\<lparr>st_index := Some ix, loaded_at := Some (now env)\<rparr>"
proof -
  have rd: "ready s" using a by (auto simp: store_def2 split: if_splits)
  have pr: "store_priority req \<in> PRIORITIES" using a rd by (auto simp: store_def2 split: if_splits)
  from rd obtain enc where m: "st_model s = Some enc" by (auto simp: ready_def)
  from a rd pr m obtain v where e: "enc (sq_text req) = Some v"
    by (cases "enc (sq_text req)") (auto simp: store_def2)
  obtain res dbp where p: "persist env db req (store_priority req) v = (res, dbp)"
    by (cases "persist env db req (store_priority req) v")
  obtain lr db4 where l: "load_index_from_db dbp = (lr, db4)"
    by (cases "load_index_from_db dbp")
  have "\<exists>sid sdim. res = Inr (sid, sdim)"
    using a rd pr m e p by (cases res) (auto simp: store_def2)
  then obtain sid sdim where res: "res = Inr (sid, sdim)" by blast
  have "\<exists>ix. lr = Inr ix" using a rd pr m e p res l by (cases lr) (auto simp: store_def2)
  then obtain ix where lr: "lr = Inr ix" by blast
  have "resp = \<lparr>sp_ok = True, sp_id = sid, sp_dim = sdim\<rparr> \<and> db4 = db' \<and>
        s' = s\<lparr>st_index := Some ix, loaded_at := Some (now env)\<rparr>"
    using a rd pr m e p res l lr by (auto simp: store_def2)
  then show ?thesis using m e pr p res l lr by auto
qed

text \<open>
  Claim C3. When two \<^verbatim>\<open>store\<close> calls in a row succeed and the second has the natural
  key of the first, both responses carry the same \<^verbatim>\<open>id\<close>; the second call leaves the
  \<^verbatim>\<open>id\<close> and the natural key of every row as they were, gives the rows of that key the
  priority, text, embedding, dim and created_at of the second call, and changes no other
  row.
\<close>

theorem store_twice_same_id:
  assumes "store enva sa dba reqa = (Inr respa, sb, dbb)"
    and "store envb sb dbb reqb = (Inr respb, sc, dbc)"
    and "req_key reqb = req_key reqa"
  shows "sp_id respb = sp_id respa \<and>
     (\<exists>tb tc enc v. dbb = Table tb \<and> dbc = Table tc \<and>
        st_model sb = Some enc \<and> enc (sq_text reqb) = Some v \<and>
        map r_id (rows tc) = map r_id (rows tb) \<and>
        map nkey (rows tc) = map nkey (rows tb) \<and>
        (\<exists>r\<in>set (rows tc). nkey r = req_key reqa \<and> r_id r = sp_id respa) \<and>
        (\<forall>r\<in>set (rows tc). nkey r = req_key reqa \<longrightarrow>
           r_priority r = Some (store_priority reqb) \<and> r_text r = sq_text reqb \<and>
           r_emb r = v \<and> r_dim r = int (length v) \<and> r_created_at r = created_at envb) \<and>
        (\<forall>i<length (rows tb). nkey (rows tb ! i) \<noteq> req_key reqa \<longrightarrow>
           rows tc ! i = rows tb ! i))"
proof -
  from store_InrD[OF assms(1)] obtain va dbp where
    pa: "persist enva dba reqa (store_priority reqa) va = (Inr (sp_id respa, sp_dim respa), dbp)"
    and la: "snd (load_index_from_db dbp) = dbb"
    by fastforce
  have dbp: "dbp = dbb" using persist_then_load[OF pa] la by simp
  from persist_row[OF pa] obtain tb ra where
    tb: "dbb = Table tb" "has_ux tb" "has_priority tb" and
    fa: "find (\<lambda>r. nkey r = req_key reqa) (rows tb) = Some ra" and
    ra: "ra \<in> set (rows tb)" "r_id ra = sp_id respa" "nkey ra = req_key reqa"
    unfolding dbp by blast
  from store_InrD[OF assms(2)] obtain enc v dbq where
    m: "st_model sb = Some enc" and e: "enc (sq_text reqb) = Some v" and
    pb: "persist envb dbb reqb (store_priority reqb) v = (Inr (sp_id respb, sp_dim respb), dbq)"
    and lb: "snd (load_index_from_db dbq) = dbc"
    by fastforce
  have dbq: "dbq = dbc" using persist_then_load[OF pb] lb by simp
  let ?new = "new_row envb reqb (store_priority reqb) v"
  let ?upd = "\<lambda>r. if nkey r = nkey ?new then overwrite ?new r else r"
  from persist_InrD[OF pb] obtain t t1 tc rb where
    "dbb = Table t" and es: "ensure_schema t = Inr t1" and
    up: "upsert t1 ?new = Inr tc" and tc: "dbq = Table tc" and
    fb: "find (\<lambda>r. nkey r = req_key reqb) (rows tc) = Some rb" and
    idb: "sp_id respb = r_id rb" by blast
  then have "t = tb" using tb by simp
  then have "t1 = tb" using es tb ensure_schema_done by simp
  then have up: "upsert tb ?new = Inr tc" using up by simp
  have kn: "nkey ?new = req_key reqa" using assms(3) by (simp add: nkey_new_row)
  have ex: "\<exists>r\<in>set (rows tb). nkey r = nkey ?new" using ra kn by auto
  have rows: "rows tc = map ?upd (rows tb)" using upsert_InrD[OF up] ex by simp
  have "find (\<lambda>r. nkey r = req_key reqa) (rows tc) = Some (?upd ra)"
    using fa by (simp add: rows kn find_overwrite)
  then have "rb = overwrite ?new ra" using fb assms(3) ra kn by simp
  then have ids: "sp_id respb = sp_id respa" using idb ra by (simp add: r_id_overwrite)
  have i1: "map r_id (rows tc) = map r_id (rows tb)"
    by (simp add: rows r_id_overwrite comp_def)
  have i2: "map nkey (rows tc) = map nkey (rows tb)"
    by (simp add: rows nkey_overwrite comp_def)
  have i3: "\<exists>r\<in>set (rows tc). nkey r = req_key reqa \<and> r_id r = sp_id respa"
    using ra kn by (intro bexI[of _ "overwrite ?new ra"])
      (auto simp: rows nkey_overwrite r_id_overwrite intro!: image_eqI[of _ _ ra])
  have i4: "\<forall>r\<in>set (rows tc). nkey r = req_key reqa \<longrightarrow>
           r_priority r = Some (store_priority reqb) \<and> r_text r = sq_text reqb \<and>
           r_emb r = v \<and> r_dim r = int (length v) \<and> r_created_at r = created_at envb"
  proof (intro ballI impI)
    fix r assume r: "r \<in> set (rows tc)" and k: "nkey r = req_key reqa"
    from r have "r \<in> ?upd ` set (rows tb)" by (simp add: rows)
    then obtain r0 where r0: "r = ?upd r0" by (rule imageE)
    have "nkey r0 = nkey ?new" using k kn by (simp add: r0 nkey_overwrite split: if_splits)
    then have "r = overwrite ?new r0" by (simp add: r0)
    then show "r_priority r = Some (store_priority reqb) \<and> r_text r = sq_text reqb \<and>
           r_emb r = v \<and> r_dim r = int (length v) \<and> r_created_at r = created_at envb"
      by (simp add: overwrite_def new_row_def)
  qed
  have i5: "\<forall>i<length (rows tb). nkey (rows tb ! i) \<noteq> req_key reqa \<longrightarrow>
           rows tc ! i = rows tb ! i"
    by (simp add: rows kn)
  show ?thesis using ids tb(1) tc dbq m e i1 i2 i3 i4 i5 by blast
qed


lemma store_priority_req1: "store_priority req1 = ''normal''"
  by (simp add: store_priority_def req1_def strip_def lower_def py_isspace_def lower_char_def)

lemma persist_first:
  "persist env0 db0 req0 ''high'' [1, 0] = (Inr (''n1'', 2), db_s1)"
  by (simp add: persist_def2 db0_def db_s1_def ensure_schema_def upsert_def new_row_def
      req_key_def nkey_def env0_def req0_def row_a_def row_b_def row_c_def)

lemma persist_second:
  "persist env1 db_s1 req1 ''normal'' [0, 1] = (Inr (''n1'', 2), db_s2)"
  by (simp add: persist_def2 db_s1_def db_s2_def ensure_schema_def upsert_def new_row_def
      req_key_def nkey_def env0_def env1_def req0_def req1_def row_a_def row_b_def row_c_def)

lemma load_db_s1: "load_index_from_db db_s1 = (Inr ix_s1, db_s1)"
  by (simp add: load_index_done db_s1_def build_index_def row_a_def row_b_def row_c_def
      new_row_def req0_def env0_def no_columns_def frombuffer_def
      renormalize_10 renormalize_01 renormalize_20 load_priority_def PRIORITIES_def
      vstack_def bindE_def ix_s1_def)

lemma load_db_s2: "load_index_from_db db_s2 = (Inr ix_s2, db_s2)"
  by (simp add: load_index_done db_s2_def build_index_def row_a_def row_b_def row_c_def
      new_row_def req1_def env1_def no_columns_def frombuffer_def
      renormalize_10 renormalize_01 renormalize_20 load_priority_def PRIORITIES_def
      vstack_def bindE_def ix_s2_def)

lemma store_first:
  "store env0 s0 db0 req0 =
     (Inr \<lparr>sp_ok = True, sp_id = ''n1'', sp_dim = 2\<rparr>,
      s0\<lparr>st_index := Some ix_s1, loaded_at := Some 7\<rparr>, db_s1)"
proof -
  have n: "now env0 = 7" by (simp add: env0_def)
  have t: "sq_text req0 = ''goat''" by (simp add: req0_def)
  show ?thesis
    by (simp add: store_def2 ready_def s0_def store_priority_req0 PRIORITIES_def enc0_def
        t persist_first load_db_s1 n)
qed

lemma store_second:
  "store env1 (s0\<lparr>st_index := Some ix_s1, loaded_at := Some 7\<rparr>) db_s1 req1 =
     (Inr \<lparr>sp_ok = True, sp_id = ''n1'', sp_dim = 2\<rparr>,
      s0\<lparr>st_index := Some ix_s2, loaded_at := Some 8\<rparr>, db_s2)"
proof -
  have n: "now env1 = 8" by (simp add: env1_def)
  have t: "sq_text req1 = ''hay''" by (simp add: req1_def)
  show ?thesis
    by (simp add: store_def2 ready_def s0_def store_priority_req1 PRIORITIES_def enc0_def
        t persist_second load_db_s2 n)
qed

theorem store_twice_same_id_witness:
  "store env0 s0 db0 req0 =
     (Inr \<lparr>sp_ok = True, sp_id = ''n1'', sp_dim = 2\<rparr>,
      s0\<lparr>st_index := Some ix_s1, loaded_at := Some 7\<rparr>, db_s1) \<and>
   store env1 (s0\<lparr>st_index := Some ix_s1, loaded_at := Some 7\<rparr>) db_s1 req1 =
     (Inr \<lparr>sp_ok = True, sp_id = ''n1'', sp_dim = 2\<rparr>,
      s0\<lparr>st_index := Some ix_s2, loaded_at := Some 8\<rparr>, db_s2) \<and>
   req_key req1 = req_key req0 \<and> new_id env1 \<noteq> new_id env0 \<and>
   sp_id \<lparr>sp_ok = True, sp_id = ''n1'', sp_dim = 2\<rparr> = new_id env0 \<and>
   (\<exists>tb tc. db_s1 = Table tb \<and> db_s2 = Table tc \<and>
      map r_id (rows tc) = map r_id (rows tb) \<and>
      (\<exists>r\<in>set (rows tc). nkey r = req_key req0 \<and> r_id r = ''n1'' \<and> r_text r = ''hay''))"
proof -
  have k: "req_key req1 = req_key req0" by (simp add: req_key_def req0_def req1_def)
  from store_twice_same_id[OF store_first store_second k] obtain tb tc enc v where
    t: "db_s1 = Table tb" "db_s2 = Table tc" and
    m: "st_model (s0\<lparr>st_index := Some ix_s1, loaded_at := Some 7\<rparr>) = Some enc"
       "enc (sq_text req1) = Some v" and
    ids: "map r_id (rows tc) = map r_id (rows tb)" and
    ex: "\<exists>r\<in>set (rows tc). nkey r = req_key req0 \<and>
           r_id r = sp_id \<lparr>sp_ok = True, sp_id = ''n1'', sp_dim = 2\<rparr>" and
    upd: "\<forall>r\<in>set (rows tc). nkey r = req_key req0 \<longrightarrow>
           r_priority r = Some (store_priority req1) \<and> r_text r = sq_text req1 \<and>
           r_emb r = v \<and> r_dim r = int (length v) \<and> r_created_at r = created_at env1"
    by blast
  from ex obtain r where r: "r \<in> set (rows tc)" "nkey r = req_key req0" "r_id r = ''n1''"
    by auto
  then have "r_text r = ''hay''" using upd by (simp add: req1_def)
  then have "\<exists>r\<in>set (rows tc). nkey r = req_key req0 \<and> r_id r = ''n1'' \<and> r_text r = ''hay''"
    using r by blast
  then have e: "\<exists>tb tc. db_s1 = Table tb \<and> db_s2 = Table tc \<and>
      map r_id (rows tc) = map r_id (rows tb) \<and>
      (\<exists>r\<in>set (rows tc). nkey r = req_key req0 \<and> r_id r = ''n1'' \<and> r_text r = ''hay'')"
    using t ids by blast
  have i: "new_id env1 \<noteq> new_id env0" "''n1'' = new_id env0" by (simp_all add: env0_def env1_def)
  show ?thesis using store_first store_second k e i by simp
qed

subsection \<open>C4: a table with two different dims\<close>

lemma mixed_dimsI:
  "r1 \<in> set rs \<Longrightarrow> r2 \<in> set rs \<Longrightarrow> r_dim r1 \<noteq> r_dim r2 \<Longrightarrow> mixed_dims rs"
  unfolding mixed_dims_def by blast

lemma mixed_dims_hd:
  assumes "mixed_dims rs"
  shows "\<exists>r\<in>set rs. r_dim r \<noteq> r_dim (hd rs)"
proof (rule ccontr)
  assume "\<not> (\<exists>r\<in>set rs. r_dim r \<noteq> r_dim (hd rs))"
  then have "\<forall>r\<in>set rs. r_dim r = r_dim (hd rs)" by blast
  then show False using assms by (auto simp: mixed_dims_def)
qed

lemma build_index_mixed: "mixed_dims rs \<Longrightarrow> \<exists>e. build_index rs = Inl e"
proof (cases "build_index rs")
  case (Inl e)
  then show ?thesis by blast
next
  case (Inr ix)
  assume "mixed_dims rs"
  then show ?thesis using build_index_Inr[OF Inr] mixed_dims_hd by blast
qed

lemma ensure_schema_rows:
  assumes "ensure_schema t = Inr t1"
  shows "rows t1 = rows t \<or> rows t1 = map (\<lambda>r. r\<lparr>r_priority := Some ''normal''\<rparr>) (rows t)"
  using assms by (auto simp: ensure_schema_def Let_def split: if_splits)

lemma ensure_schema_mixed:
  assumes "ensure_schema t = Inr t1" and "mixed_dims (rows t)"
  shows "mixed_dims (rows t1)"
proof -
  have eq: "mixed_dims rs \<longleftrightarrow> (\<exists>d1\<in>set (map r_dim rs). \<exists>d2\<in>set (map r_dim rs). d1 \<noteq> d2)" for rs
    unfolding mixed_dims_def by (simp add: image_iff)
  have "map r_dim (rows t1) = map r_dim (rows t)" using ensure_schema_InrD[OF assms(1)] by simp
  then show ?thesis using assms(2) unfolding eq by simp
qed

lemma ensure_schema_hd:
  assumes "ensure_schema t = Inr t1" and "rows t \<noteq> []"
  shows "r_dim (hd (rows t1)) = r_dim (hd (rows t)) \<and> rows t1 \<noteq> []"
  using ensure_schema_rows[OF assms(1)] assms(2) by (auto simp: hd_map)

lemma ensure_schema_decodable:
  assumes "ensure_schema t = Inr t1"
    and "\<forall>r\<in>set (rows t). \<exists>v. frombuffer (r_emb r) (r_dim r) = Inr v"
  shows "\<forall>r\<in>set (rows t1). \<exists>v. frombuffer (r_emb r) (r_dim r) = Inr v"
  using ensure_schema_rows[OF assms(1)] assms(2) by auto

lemma load_mixed:
  assumes "mixed_db db"
  shows "(\<exists>e. fst (load_index_from_db db) = Inl e) \<and> mixed_db (snd (load_index_from_db db))"
proof -
  from assms obtain t where db: "db = Table t" and mx: "mixed_dims (rows t)"
    by (auto simp: mixed_db_def split: db_file.splits)
  show ?thesis
  proof (cases "ensure_schema t")
    case (Inl e)
    then show ?thesis using mx
      by (simp add: db load_index_from_db_def select_rows_def bindE_def mixed_db_def)
  next
    case (Inr t1)
    from build_index_mixed[OF ensure_schema_mixed[OF Inr mx]] obtain e where
      "build_index (rows t1) = Inl e" by blast
    then show ?thesis using Inr ensure_schema_mixed[OF Inr mx]
      by (simp add: db load_index_from_db_def select_rows_def bindE_def mixed_db_def)
  qed
qed

lemma load_loop_mismatch:
  assumes "\<forall>r\<in>set rs. \<exists>v. frombuffer (r_emb r) (r_dim r) = Inr v"
    and "\<exists>r\<in>set rs. r_dim r \<noteq> dim0"
  shows "\<exists>d. d \<noteq> dim0 \<and> load_loop dim0 rs acc = Inl (RuntimeError_dim d dim0)"
  using assms
proof (induction rs arbitrary: acc)
  case Nil
  then show ?case by simp
next
  case (Cons r rs)
  show ?case
  proof (cases "r_dim r = dim0")
    case False
    then show ?thesis by auto
  next
    case True
    from Cons.prems(1) obtain v where v: "frombuffer (r_emb r) (r_dim r) = Inr v" by auto
    have "\<exists>r\<in>set rs. r_dim r \<noteq> dim0" using Cons.prems(2) True by auto
    from Cons.IH[OF _ this] Cons.prems(1) show ?thesis using True v by simp
  qed
qed

lemma step_keeps_unready:
  assumes "st_index s = None" and "mixed_db db"
  shows "st_index (fst (step rq (s, db))) = None \<and> mixed_db (snd (step rq (s, db)))"
proof (cases rq)
  case (Startup env)
  from assms(2) obtain t where db: "db = Table t" and mx: "mixed_dims (rows t)"
    by (auto simp: mixed_db_def split: db_file.splits)
  show ?thesis
  proof (cases "ensure_schema t")
    case (Inl e)
    then show ?thesis using assms by (simp add: step_def Startup startup_def db bindE_def)
  next
    case (Inr t1)
    have m1: "mixed_db (Table t1)" using ensure_schema_mixed[OF Inr mx] by (simp add: mixed_db_def)
    from load_mixed[OF m1] obtain e db2 where l: "load_index_from_db (Table t1) = (Inl e, db2)"
      and m2: "mixed_db db2" by (cases "load_index_from_db (Table t1)") auto
    show ?thesis using assms Inr m1 m2 l
      by (auto simp: step_def Startup startup_def db bindE_def Let_def split: option.splits)
  qed
next
  case (Reload env)
  from load_mixed[OF assms(2)] obtain e db2 where l: "load_index_from_db db = (Inl e, db2)"
    and m2: "mixed_db db2" by (cases "load_index_from_db db") auto
  show ?thesis using assms l m2
    by (auto simp: step_def Reload reload_index_def split: option.splits)
next
  case (Store env req)
  then show ?thesis using assms by (simp add: step_def store_def2 ready_def)
next
  case (Retrieve q)
  then show ?thesis using assms by (simp add: step_def)
qed

lemma run_keeps_unready:
  assumes "st_index s = None" and "mixed_db db"
  shows "st_index (fst (run ops (s, db))) = None \<and> mixed_db (snd (run ops (s, db)))"
  using assms
proof (induction ops arbitrary: s db)
  case Nil
  then show ?case by (simp add: run_def)
next
  case (Cons rq ops)
  obtain s' db' where st: "step rq (s, db) = (s', db')" by (cases "step rq (s, db)")
  from step_keeps_unready[OF Cons.prems, of rq] have "st_index s' = None" "mixed_db db'"
    by (simp_all add: st)
  from Cons.IH[OF this] show ?case by (simp add: run_def st)
qed


text \<open>
  Claim C4, as stated, names the error: a dimension-mismatch error. The loop of lines
  146-162 decodes every row that precedes the first disagreeing one, and \<^verbatim>\<open>np.frombuffer\<close>
  raises \<^verbatim>\<open>ValueError\<close> on a blob shorter than \<^verbatim>\<open>dim\<close> values. In \<open>db_short\<close> the first row
  has \<open>dim = 2\<close> and a blob of one value, the second row has \<open>dim = 3\<close>: construction
  fails with \<^verbatim>\<open>ValueError\<close>, not with the dimension-mismatch error.
\<close>

theorem mixed_dims_other_error_counterexample:
  "mixed_dims [row_e, row_d] \<and> r_dim row_e = 2 \<and> r_dim row_d = 3 \<and>
   load_index_from_db db_short = (Inl ValueError, db_short)"
proof -
  have d: "r_dim row_e = 2" "r_dim row_d = 3" by (simp_all add: row_e_def row_d_def)
  have "mixed_dims [row_e, row_d]" by (rule mixed_dimsI[of row_e _ row_d]) (simp_all add: d)
  moreover have "load_index_from_db db_short = (Inl ValueError, db_short)"
    by (simp add: load_index_from_db_def select_rows_def db_short_def
        ensure_schema_def build_index_def bindE_def row_e_def row_d_def frombuffer_def
        no_columns_def)
  ultimately show ?thesis using d by simp
qed

text \<open>
  Claim C4, amended. On a table holding two rows whose \<^verbatim>\<open>dim\<close> values differ,
  \<^verbatim>\<open>_load_index_from_db\<close> raises and returns no snapshot; when the schema check passes and
  every blob holds at least \<^verbatim>\<open>dim\<close> values, what it raises is the dimension-mismatch
  error, naming a \<^verbatim>\<open>dim\<close> that differs from the first row's; and a service without a
  snapshot never becomes ready on such a table, whatever requests it receives.
\<close>

theorem mixed_dims_never_ready:
  assumes "db = Table t" and "mixed_dims (rows t)"
  shows "(\<exists>e. fst (load_index_from_db db) = Inl e) \<and>
     ((\<exists>t1. ensure_schema t = Inr t1) \<and>
      (\<forall>r\<in>set (rows t). \<exists>v. frombuffer (r_emb r) (r_dim r) = Inr v) \<longrightarrow>
        (\<exists>d. d \<noteq> r_dim (hd (rows t)) \<and>
           fst (load_index_from_db db) = Inl (RuntimeError_dim d (r_dim (hd (rows t)))))) \<and>
     (\<forall>ops s. st_index s = None \<longrightarrow> \<not> ready (fst (run ops (s, db))))"
proof (intro conjI)
  have mdb: "mixed_db db" using assms by (simp add: mixed_db_def)
  show "\<exists>e. fst (load_index_from_db db) = Inl e" using load_mixed[OF mdb] by blast
  show "\<forall>ops s. st_index s = None \<longrightarrow> \<not> ready (fst (run ops (s, db)))"
    using run_keeps_unready[OF _ mdb] by (simp add: ready_def)
  show "(\<exists>t1. ensure_schema t = Inr t1) \<and>
      (\<forall>r\<in>set (rows t). \<exists>v. frombuffer (r_emb r) (r_dim r) = Inr v) \<longrightarrow>
        (\<exists>d. d \<noteq> r_dim (hd (rows t)) \<and>
           fst (load_index_from_db db) = Inl (RuntimeError_dim d (r_dim (hd (rows t)))))"
  proof
    assume h: "(\<exists>t1. ensure_schema t = Inr t1) \<and>
      (\<forall>r\<in>set (rows t). \<exists>v. frombuffer (r_emb r) (r_dim r) = Inr v)"
    then obtain t1 where es: "ensure_schema t = Inr t1" by blast
    have ne: "rows t \<noteq> []" using assms(2) by (auto simp: mixed_dims_def)
    have hd: "r_dim (hd (rows t1)) = r_dim (hd (rows t))" and ne1: "rows t1 \<noteq> []"
      using ensure_schema_hd[OF es ne] by simp_all
    have dec: "\<forall>r\<in>set (rows t1). \<exists>v. frombuffer (r_emb r) (r_dim r) = Inr v"
      using ensure_schema_decodable[OF es] h by blast
    have "\<exists>r\<in>set (rows t1). r_dim r \<noteq> r_dim (hd (rows t1))"
      using mixed_dims_hd[OF ensure_schema_mixed[OF es assms(2)]] .
    from load_loop_mismatch[OF dec this, of no_columns] obtain d where
      d: "d \<noteq> r_dim (hd (rows t1))" and
      ll: "load_loop (r_dim (hd (rows t1))) (rows t1) no_columns =
             Inl (RuntimeError_dim d (r_dim (hd (rows t1))))" by blast
    have "build_index (rows t1) = Inl (RuntimeError_dim d (r_dim (hd (rows t1))))"
      using ne1 ll by (cases "rows t1") (simp_all add: build_index_def bindE_def)
    then have "fst (load_index_from_db db) = Inl (RuntimeError_dim d (r_dim (hd (rows t))))"
      using es by (simp add: assms(1) load_index_from_db_def select_rows_def bindE_def hd)
    then show "\<exists>d. d \<noteq> r_dim (hd (rows t)) \<and>
           fst (load_index_from_db db) = Inl (RuntimeError_dim d (r_dim (hd (rows t))))"
      using d hd by auto
  qed
qed

theorem mixed_dims_never_ready_witness:
  "mixed_dims [row_a, row_d] \<and>
   load_index_from_db db_mixed = (Inl (RuntimeError_dim 3 2), db_mixed) \<and>
   \<not> ready (fst (run [Startup env0, Reload env0, Store env0 req0,
                      Retrieve \<lparr>q_query = ''cow'', q_topk = 5, q_kind = None\<rparr>, Reload env0]
                 (state_init, db_mixed)))"
proof -
  have "mixed_dims [row_a, row_d]"
    by (rule mixed_dimsI[of row_a _ row_d]) (simp_all add: row_a_def row_d_def)
  then have mx: "mixed_dims (rows \<lparr>rows = [row_a, row_d], has_ux = True, has_priority = True\<rparr>)"
    by simp
  note t = mixed_dims_never_ready[OF db_mixed_def mx]
  have "st_index state_init = None" by (simp add: state_init_def)
  then have "\<not> ready (fst (run [Startup env0, Reload env0, Store env0 req0,
                      Retrieve \<lparr>q_query = ''cow'', q_topk = 5, q_kind = None\<rparr>, Reload env0]
                 (state_init, db_mixed)))"
    using t by blast
  then show ?thesis using mx load_db_mixed by simp
qed

subsection \<open>C7: renormalization at load time\<close>











subsection \<open>C6: a stored chunk queried by its own text\<close>



























end
